theory Spec2Isabelle
  imports Complex_Main
begin

section \<open>Shared data model\<close>

text \<open>
  Intensities are modelled as real numbers. In the depth trimmer and in the SUV
  conversion the arithmetic of the NumPy arrays is taken exactly; in the normalization
  every operation is rounded to the float type of the array, as IEEE 754 prescribes.
  NaN and infinite values are not part of the model.
  A 2D pixel grid is a list of rows, a 3D volume a list of 2D slices
  (axis 0 is the depth). Every function that writes to the logger returns the records
  it emitted, in order, next to its result. A Python exception that leaves a function
  is the \<open>Inl\<close> branch of its result.
\<close>

datatype level = INFO | WARNING | ERROR

type_synonym log = "(level \<times> string) list"

datatype error = ValueError string

type_synonym volume = "real list list list"

section \<open>Depth trimmer (volume\_processing.py)\<close>

text \<open>\<open>np.mean(volume, axis=(1, 2))\<close> for one depth index.\<close>

definition slice_mean :: "real list list \<Rightarrow> real" where
  "slice_mean s = sum_list (concat s) / real (length (concat s))"

text \<open>\<open>ndarray.max()\<close> and \<open>ndarray.min()\<close> of a 1D array; both raise on a zero-size array.\<close>

fun np_max :: "real list \<Rightarrow> error + real" where
  "np_max [] = Inl (ValueError ''zero-size array to reduction operation maximum which has no identity'')"
| "np_max (x # xs) = Inr (fold max xs x)"

fun np_min :: "real list \<Rightarrow> error + real" where
  "np_min [] = Inl (ValueError ''zero-size array to reduction operation minimum which has no identity'')"
| "np_min (x # xs) = Inr (fold min xs x)"

text \<open>Lines 43-48: the per-slice means rescaled to [0,1], or all ones when they are all equal.\<close>

definition normalized_intensities :: "real list \<Rightarrow> error + real list" where
  "normalized_intensities slice_intensities =
     (case np_max slice_intensities of
        Inl e \<Rightarrow> Inl e
      | Inr mx \<Rightarrow>
          (case np_min slice_intensities of
             Inl e \<Rightarrow> Inl e
           | Inr mn \<Rightarrow>
               if mx > mn
               then Inr (map (\<lambda>x. (x - mn) / (mx - mn + 1 / 10 ^ 8)) slice_intensities)
               else Inr (map (\<lambda>x. 1) slice_intensities)))"

text \<open>
  The two scanning loops. \<open>scan_up t xs i\<close> is \<open>for i in range(i, depth)\<close> with its
  \<open>break\<close>: the first index from \<open>i\<close> on whose value passes the test, or \<open>None\<close> when the
  loop runs out. \<open>scan_down t xs n\<close> is \<open>for i in range(n - 1, -1, -1)\<close>.
\<close>

function scan_up :: "(real \<Rightarrow> bool) \<Rightarrow> real list \<Rightarrow> nat \<Rightarrow> nat option" where
  "scan_up t xs i =
     (if i < length xs then (if t (xs ! i) then Some i else scan_up t xs (Suc i)) else None)"
  by pat_completeness auto
termination
  by (relation "measure (\<lambda>(t, xs, i). length xs - i)") auto

declare scan_up.simps [simp del]

fun scan_down :: "(real \<Rightarrow> bool) \<Rightarrow> real list \<Rightarrow> nat \<Rightarrow> nat option" where
  "scan_down t xs 0 = None"
| "scan_down t xs (Suc i) = (if t (xs ! i) then Some i else scan_down t xs i)"

text \<open>
  Lines 50-78: the start and end index, with their defaults 0 and depth - 1. The depth
  is the length of the normalized array, which has one entry per depth index.
\<close>

definition select_range :: "real list \<Rightarrow> real \<Rightarrow> bool \<Rightarrow> int \<times> int" where
  "select_range normalized thr max_mode =
     (let depth = length normalized;
          t = (if max_mode then (\<lambda>x. x \<ge> thr) else (\<lambda>x. x < thr));
          start_idx = (case scan_up t normalized 0 of Some i \<Rightarrow> int i | None \<Rightarrow> 0);
          end_idx = (case scan_down t normalized depth of Some i \<Rightarrow> int i | None \<Rightarrow> int depth - 1)
      in (start_idx, end_idx))"

text \<open>Lines 80-89: the expansion to the minimum number of slices.\<close>

definition ensure_min_slices :: "int \<Rightarrow> int \<Rightarrow> int \<Rightarrow> int \<Rightarrow> (int \<times> int) \<times> log" where
  "ensure_min_slices depth start_idx end_idx min_slices_to_keep =
     (let total_slices = end_idx - start_idx + 1
      in if total_slices < min_slices_to_keep
         then (let center = (start_idx + end_idx) div 2;
                   half_min = min_slices_to_keep div 2;
                   start_idx' = max 0 (center - half_min);
                   end_idx' = min (depth - 1) (start_idx' + min_slices_to_keep - 1)
               in ((start_idx', end_idx'),
                   [(INFO, ''Expanded range to meet minimum slice requirement'')]))
         else ((start_idx, end_idx), []))"

text \<open>Python's \<open>xs[a:b]\<close> for integers: a negative bound counts from the end, both are clipped.\<close>

definition py_slice :: "'a list \<Rightarrow> int \<Rightarrow> int \<Rightarrow> 'a list" where
  "py_slice xs a b =
     (let n = int (length xs);
          a' = (if a < 0 then max 0 (a + n) else min a n);
          b' = (if b < 0 then max 0 (b + n) else min b n)
      in take (nat (b' - a')) (drop (nat a') xs))"

text \<open>The range the trimmer keeps, and the trimmer itself.\<close>

definition trim_range :: "volume \<Rightarrow> real \<Rightarrow> int \<Rightarrow> bool \<Rightarrow> error + ((int \<times> int) \<times> log)" where
  "trim_range vol thr min_slices_to_keep max_mode =
     (case normalized_intensities (map slice_mean vol) of
        Inl e \<Rightarrow> Inl e
      | Inr normalized \<Rightarrow>
          (case select_range normalized thr max_mode of
             (start_idx, end_idx) \<Rightarrow>
               Inr (ensure_min_slices (int (length vol)) start_idx end_idx min_slices_to_keep)))"

definition trim_volume_by_threshold :: "volume \<Rightarrow> real \<Rightarrow> int \<Rightarrow> bool \<Rightarrow> error + (volume \<times> log)" where
  "trim_volume_by_threshold vol thr min_slices_to_keep max_mode =
     (case trim_range vol thr min_slices_to_keep max_mode of
        Inl e \<Rightarrow> Inl e
      | Inr ((start_idx, end_idx), lg) \<Rightarrow> Inr (py_slice vol start_idx (end_idx + 1), lg))"

section \<open>Metadata records (pydicom datasets)\<close>

text \<open>
  The code probes its metadata by \<open>hasattr\<close> and by comparison with \<open>None\<close>, so every
  optional element is one of: not there, there with the value \<open>None\<close>, there with a
  value. The values are those of the element's DICOM value representation (decimal
  strings read as numbers, an integer string read as an integer, a sequence read as a
  list), on which \<open>float(...)\<close> does not raise.
\<close>

datatype 'a attr = Missing | PyNone | Val 'a

record rph_info =
  RadionuclideTotalDose :: "real attr"

text \<open>\<open>pixel_array\<close> is \<open>None\<close> when decoding the pixel data raises.\<close>

record dataset =
  ImagePositionPatient :: "real list attr"
  SliceLocation :: "real attr"
  InstanceNumber :: "int attr"
  Modality :: string
  PatientWeight :: "real attr"
  RadiopharmaceuticalInformationSequence :: "rph_info list attr"
  pixel_array :: "int list list option"

section \<open>Floating-point formats of the arrays\<close>

text \<open>
  NumPy computes on float32 and float64 arrays in IEEE 754 binary32 and binary64
  arithmetic: the exact result of an operation is rounded to the nearest number of the
  format, ties to the even significand. With \<open>p\<close> significand bits and least exponent
  \<open>emin\<close>, the numbers of a format are the integer multiples of 2^(e - p + 1) of magnitude
  at most 2^(e + 1), for the exponents e from \<open>emin\<close> on; below 2^emin the spacing stays
  2^(emin - p + 1) (gradual underflow). \<open>fl dt x\<close> is the real \<open>x\<close> rounded to the format
  \<open>dt\<close>, and a number of the format is a fixed point of \<open>fl dt\<close>. Infinities and NaN are
  not values of the model: a result of magnitude \<open>overflow_threshold\<close> (2^128, 2^1024) or
  more stands for an overflow, which NumPy turns into an infinity.
\<close>

datatype dtype = Float32 | Float64

fun precision :: "dtype \<Rightarrow> int" where
  "precision Float32 = 24"
| "precision Float64 = 53"

fun emin :: "dtype \<Rightarrow> int" where
  "emin Float32 = - 126"
| "emin Float64 = - 1022"

text \<open>Rounding a real to the nearest integer, a tie to the even one.\<close>

definition round_half_even :: "real \<Rightarrow> int" where
  "round_half_even y =
     (let f = \<lfloor>y\<rfloor>
      in if y - of_int f < 1 / 2 then f
         else if 1 / 2 < y - of_int f then f + 1
         else if even f then f else f + 1)"

text \<open>The exponent of the binade of \<open>x\<close>, the spacing of the format there, and the rounding.\<close>

definition exponent :: "dtype \<Rightarrow> real \<Rightarrow> int" where
  "exponent dt x = max \<lfloor>log 2 \<bar>x\<bar>\<rfloor> (emin dt)"

definition ulp :: "dtype \<Rightarrow> real \<Rightarrow> real" where
  "ulp dt x = 2 powi (exponent dt x - precision dt + 1)"

definition fl :: "dtype \<Rightarrow> real \<Rightarrow> real" where
  "fl dt x = (if x = 0 then 0 else of_int (round_half_even (x / ulp dt x)) * ulp dt x)"

text \<open>The least positive number of a format, and the magnitude from which a result overflows.\<close>

definition qmin :: "dtype \<Rightarrow> real" where
  "qmin dt = 2 powi (emin dt - precision dt + 1)"

definition overflow_threshold :: "dtype \<Rightarrow> real" where
  "overflow_threshold dt = 2 powi (2 - emin dt)"

section \<open>Intensity normalizer (intensity\_processing.py)\<close>

text \<open>
  \<open>image.astype(np.float32)\<close> on the integer pixel grid of a decoded slice: the same
  numbers as reals (stored pixel values are far inside the range that a 32-bit float
  holds exactly).
\<close>

definition astype_float32 :: "int list list \<Rightarrow> real list list" where
  "astype_float32 img = map (map real_of_int) img"

text \<open>
  Lines 59-88. The message of a log record is the literal text of the source's string;
  the values interpolated into an f-string are not modelled. The handler of line 86 is
  not reachable on the metadata values modelled here.
\<close>

definition convert_to_suv :: "int list list \<Rightarrow> dataset \<Rightarrow> real list list \<times> log" where
  "convert_to_suv img metadata =
     (let skip_weight = (astype_float32 img,
            [(WARNING, ''Skipping SUV conversion: PatientWeight is missing or None'')]);
          skip_seq = (astype_float32 img,
            [(WARNING, ''Skipping SUV conversion: RadiopharmaceuticalInformationSequence is missing'')]);
          skip_dose = (astype_float32 img,
            [(WARNING, ''Skipping SUV conversion: RadionuclideTotalDose is missing or None'')]);
          skip_zero = (astype_float32 img,
            [(WARNING, ''Skipping SUV conversion: RadionuclideTotalDose is zero'')])
      in case PatientWeight metadata of
           Missing \<Rightarrow> skip_weight
         | PyNone \<Rightarrow> skip_weight
         | Val weight \<Rightarrow>
             (case RadiopharmaceuticalInformationSequence metadata of
                Missing \<Rightarrow> skip_seq
              | PyNone \<Rightarrow> skip_seq
              | Val [] \<Rightarrow> skip_seq
              | Val (rph # _) \<Rightarrow>
                  (case RadionuclideTotalDose rph of
                     Missing \<Rightarrow> skip_dose
                   | PyNone \<Rightarrow> skip_dose
                   | Val total_dose \<Rightarrow>
                       (let dose = total_dose / 10 ^ 6
                        in if dose = 0 then skip_zero
                           else (map (map (\<lambda>p. p * weight / dose)) (astype_float32 img), [])))))"

text \<open>
  Lines 100-104, for the two ranks the callers use (a 3D volume in the driver, a 2D
  slice in \<open>convert\<close>), on an array of float type \<open>dt\<close>. \<open>np.min\<close> and \<open>np.max\<close> run
  over all elements; \<open>np.min\<close> is evaluated first and raises on an array without
  elements, which the handler turns into an error record and the unchanged input. The
  two subtractions, the addition and the division are each rounded to \<open>dt\<close>. The
  constant \<open>1e-8\<close> is a Python float, the float64 nearest to 10^-8, and takes the float
  type of the value it is added to (the promotion of Python scalars in NumPy 2), so it
  is converted to \<open>dt\<close> first.
\<close>

definition normalize_image :: "dtype \<Rightarrow> volume \<Rightarrow> volume \<times> log" where
  "normalize_image dt img =
     (case np_min (concat (concat img)) of
        Inl e \<Rightarrow> (img, [(ERROR, ''Normalization failed: {e}'')])
      | Inr mn \<Rightarrow>
          (case np_max (concat (concat img)) of
             Inl e \<Rightarrow> (img, [(ERROR, ''Normalization failed: {e}'')])
           | Inr mx \<Rightarrow>
               (let denom = fl dt (fl dt (mx - mn) + fl dt (fl Float64 (1 / 10 ^ 8)))
                in (map (map (map (\<lambda>x. fl dt (fl dt (x - mn) / denom)))) img, []))))"

definition normalize_slice :: "dtype \<Rightarrow> real list list \<Rightarrow> real list list \<times> log" where
  "normalize_slice dt img =
     (case np_min (concat img) of
        Inl e \<Rightarrow> (img, [(ERROR, ''Normalization failed: {e}'')])
      | Inr mn \<Rightarrow>
          (case np_max (concat img) of
             Inl e \<Rightarrow> (img, [(ERROR, ''Normalization failed: {e}'')])
           | Inr mx \<Rightarrow>
               (let denom = fl dt (fl dt (mx - mn) + fl dt (fl Float64 (1 / 10 ^ 8)))
                in (map (map (\<lambda>x. fl dt (fl dt (x - mn) / denom))) img, []))))"

text \<open>
  Lines 35-46. The class has no method \<open>_convert_to_hu\<close> in this repository; what the
  call on a CT slice does is the parameter \<open>hu\<close>, which may raise and otherwise returns
  a grid together with its float type. The SUV conversion returns a float32 grid.
\<close>

fun convert ::
  "(int list list \<Rightarrow> dataset \<Rightarrow> error + (dtype \<times> real list list)) \<Rightarrow> bool \<Rightarrow>
   (int list list \<times> dataset) list \<Rightarrow> error + (real list list list \<times> log)" where
  "convert hu normalize_flag [] = Inr ([], [])"
| "convert hu normalize_flag ((img, metadata) # rest) =
     (case (if Modality metadata = ''CT''
            then (case hu img metadata of
                    Inl e \<Rightarrow> Inl e
                  | Inr (dt, hu_img) \<Rightarrow> Inr (dt, hu_img, []))
            else (case convert_to_suv img metadata of
                    (suv, lg) \<Rightarrow> Inr (Float32, suv, lg))) of
        Inl e \<Rightarrow> Inl e
      | Inr (dt, converted_img, lg1) \<Rightarrow>
          (case (if normalize_flag then normalize_slice dt converted_img
                 else (converted_img, [])) of
             (converted_img', lg2) \<Rightarrow>
               (case convert hu normalize_flag rest of
                  Inl e \<Rightarrow> Inl e
                | Inr (converted_slices, lg3) \<Rightarrow>
                    Inr (converted_img' # converted_slices, lg1 @ lg2 @ lg3))))"

section \<open>Slice loader (dicom\_converter.py)\<close>

text \<open>
  Lines 88-114: three attempts in order, each in its own \<open>try\<close>. A position with fewer
  than three components raises IndexError and \<open>float(None)\<close> raises TypeError; both are
  caught and the next attempt runs.
\<close>

definition try_image_position :: "dataset \<Rightarrow> real option" where
  "try_image_position ds =
     (case ImagePositionPatient ds of
        Missing \<Rightarrow> None
      | PyNone \<Rightarrow> None
      | Val xs \<Rightarrow> if xs = [] then None else if length xs \<le> 2 then None else Some (xs ! 2))"

definition try_slice_location :: "dataset \<Rightarrow> real option" where
  "try_slice_location ds =
     (case SliceLocation ds of Missing \<Rightarrow> None | PyNone \<Rightarrow> None | Val s \<Rightarrow> Some s)"

definition try_instance_number :: "dataset \<Rightarrow> real option" where
  "try_instance_number ds =
     (case InstanceNumber ds of Missing \<Rightarrow> None | PyNone \<Rightarrow> None | Val n \<Rightarrow> Some (real_of_int n))"

definition get_z_position :: "dataset \<Rightarrow> real \<times> log" where
  "get_z_position ds =
     (case try_image_position ds of
        Some z \<Rightarrow> (z, [])
      | None \<Rightarrow>
          (case try_slice_location ds of
             Some z \<Rightarrow> (z, [])
           | None \<Rightarrow>
               (case try_instance_number ds of
                  Some z \<Rightarrow> (z, [])
                | None \<Rightarrow> (0, [(WARNING, ''Could not determine z-position, using 0 as fallback'')]))))"

text \<open>
  Lines 63-71: the loop over the files found. A file is what \<open>dcmread\<close> makes of it:
  \<open>None\<close> when it raises, the dataset otherwise.
\<close>

fun load_files :: "dataset option list \<Rightarrow> (real \<times> int list list \<times> dataset) list \<times> log" where
  "load_files [] = ([], [])"
| "load_files (None # files) =
     (case load_files files of
        (slices, lg) \<Rightarrow> (slices, (WARNING, ''Skipped {file.name}: {e}'') # lg))"
| "load_files (Some ds # files) =
     (case get_z_position ds of
        (z_pos, lgz) \<Rightarrow>
          (case pixel_array ds of
             None \<Rightarrow>
               (case load_files files of
                  (slices, lg) \<Rightarrow> (slices, lgz @ (WARNING, ''Skipped {file.name}: {e}'') # lg))
           | Some px \<Rightarrow>
               (case load_files files of
                  (slices, lg) \<Rightarrow> ((z_pos, px, ds) # slices, lgz @ lg))))"

text \<open>
  Lines 58-76. \<open>list.sort(key=...)\<close> is a stable sort; \<open>sort_key\<close> is the stable sort of
  the library (the result of a stable sort is determined by the keys and the input
  order, whatever the algorithm).
\<close>

definition to_2d_array :: "dataset option list \<Rightarrow> (int list list \<times> dataset) list \<times> log" where
  "to_2d_array files =
     (case load_files files of
        (slices, lg) \<Rightarrow>
          (map (\<lambda>(z, px, metadata). (px, metadata)) (sort_key fst slices),
           [(INFO, ''Found {len(files)} DICOM files in {dicom_path}'')] @ lg @
           [(INFO, ''Successfully loaded and sorted {len(slices)} slices by z-position.'')]))"

text \<open>
  Lines 128-146. \<open>resize\<close> is the external resampler of scikit-image, a parameter here.
\<close>

definition shape :: "real list list \<Rightarrow> nat \<times> nat" where
  "shape img = (length img, case img of [] \<Rightarrow> 0 | row # _ \<Rightarrow> length row)"

definition to_3d_array ::
  "(real list list \<Rightarrow> nat \<Rightarrow> real list list) \<Rightarrow> real list list list \<Rightarrow> nat \<Rightarrow>
   error + (volume \<times> log)" where
  "to_3d_array resize slices target_size =
     (if slices = [] then Inl (ValueError ''No slices provided'')
      else Inr (map (\<lambda>slice_img. if shape slice_img = (target_size, target_size)
                                 then slice_img else resize slice_img target_size) slices,
                concat (map (\<lambda>slice_img. if shape slice_img = (target_size, target_size) then []
                     else [(INFO, ''Resizing slice {i} from {slice_img.shape} to ({target_size}, {target_size})'')])
                   slices) @
                [(INFO, ''Stacking {len(resized_slices)} slices into 3D volume with shape ({len(resized_slices)}, {target_size}, {target_size})'')]))"

section \<open>The per-study pipeline (pet\_preprocessing.py)\<close>

text \<open>
  Lines 36-72 of the driver, as the flow of the data and of the exceptions (the handler
  logs and raises again); the log records are dropped here. A study is the list of its
  \<open>.dcm\<close> files. The float type \<open>dt\<close> of the stacked volume depends on the resampler
  (float32 when no slice is resized), so it is a parameter. The result is the volume
  handed to \<open>save_pet_volume\<close>, or the early return for a study without files.
\<close>

datatype outcome = Skipped | Saved volume

text \<open>\<open>volume.astype('float32')\<close> on a float volume.\<close>

definition volume_astype_float32 :: "volume \<Rightarrow> volume" where
  "volume_astype_float32 vol = map (map (map (fl Float32))) vol"

definition preprocess_pet_patient_data ::
  "(real list list \<Rightarrow> nat \<Rightarrow> real list list) \<Rightarrow>
   (int list list \<Rightarrow> dataset \<Rightarrow> error + (dtype \<times> real list list)) \<Rightarrow>
   dtype \<Rightarrow> dataset option list \<Rightarrow> real \<Rightarrow> bool \<Rightarrow> error + outcome" where
  "preprocess_pet_patient_data resize hu dt files threshold max_mode =
     (if files = [] then Inr Skipped
      else case convert hu False (fst (to_2d_array files)) of
             Inl e \<Rightarrow> Inl e
           | Inr (slices, lg1) \<Rightarrow>
               (case to_3d_array resize slices 128 of
                  Inl e \<Rightarrow> Inl e
                | Inr (vol, lg2) \<Rightarrow>
                    (case trim_volume_by_threshold
                            (volume_astype_float32 (fst (normalize_image dt vol)))
                            threshold 8 max_mode of
                       Inl e \<Rightarrow> Inl e
                     | Inr (trimmed_volume, lg3) \<Rightarrow>
                         Inr (Saved (volume_astype_float32 trimmed_volume)))))"

section \<open>The specification's wording and example studies\<close>

text \<open>
  Step 5 of the depth trimmer as the specification words it: the floor midpoint of the
  found range, expanded outward by half the minimum count on both sides, clamped to
  [0, depth - 1], and extended downward when the upper side was clamped, so that the
  minimum length is met (as far as index 0 allows). This definition follows the prose,
  not the code; it is what \<open>ensure_min_slices\<close> is compared with.
\<close>

definition recenter_spec :: "int \<Rightarrow> int \<Rightarrow> int \<Rightarrow> int \<Rightarrow> int \<times> int" where
  "recenter_spec depth start_idx end_idx min_slices_to_keep =
     (let mid = (start_idx + end_idx) div 2;
          half = min_slices_to_keep div 2;
          lo = max 0 (mid - half);
          hi = min (depth - 1) (mid + half)
      in if depth - 1 < mid + half
         then (max 0 (min lo (hi - min_slices_to_keep + 1)), hi)
         else (lo, hi))"

text \<open>Volumes of 1 x 1 slices, so that a slice's mean is its one value.\<close>

definition study_bright_last :: volume where
  "study_bright_last = [[[0]], [[0]], [[0]], [[0]], [[0]], [[0]], [[0]], [[0]], [[0]], [[1]]]"

definition study_short :: volume where
  "study_short = [[[0]], [[0]], [[0]], [[1]]]"

definition study_bright_third :: volume where
  "study_bright_third = [[[0]], [[0]], [[1]], [[0]], [[0]], [[0]]]"


text \<open>
  A PET dataset without any of the optional elements, and one with the weight and the
  dose of the SUV scenario.
\<close>

definition bare_dataset :: dataset where
  "bare_dataset =
     \<lparr>ImagePositionPatient = Missing, SliceLocation = Missing, InstanceNumber = Missing,
      Modality = ''PT'', PatientWeight = Missing,
      RadiopharmaceuticalInformationSequence = Missing, pixel_array = Some [[100]]\<rparr>"

definition pet_dataset :: dataset where
  "pet_dataset =
     bare_dataset\<lparr>PatientWeight := Val 70,
       RadiopharmaceuticalInformationSequence := Val [\<lparr>RadionuclideTotalDose = Val 370000000\<rparr>]\<rparr>"

text \<open>
  The decodable slices of a study in the order of its files (a file decodes when both
  \<open>dcmread\<close> and the pixel data succeed), the z-position the loader resolves for a
  slice, and the files that fail to decode.
\<close>

definition decoded_slices :: "dataset option list \<Rightarrow> (int list list \<times> dataset) list" where
  "decoded_slices files =
     List.map_filter
       (\<lambda>f. case f of
              None \<Rightarrow> None
            | Some ds \<Rightarrow> (case pixel_array ds of None \<Rightarrow> None | Some px \<Rightarrow> Some (px, ds)))
       files"

definition z_of :: "int list list \<times> dataset \<Rightarrow> real" where
  "z_of s = fst (get_z_position (snd s))"

definition decode_fails :: "dataset option \<Rightarrow> bool" where
  "decode_fails f = (case f of None \<Rightarrow> True | Some ds \<Rightarrow> pixel_array ds = None)"

text \<open>
  A decodable slice with SliceLocation \<open>z\<close> and the one pixel \<open>v\<close>, and a study of two
  files of which neither decodes.
\<close>

definition slice_at :: "real \<Rightarrow> int \<Rightarrow> dataset" where
  "slice_at z v = bare_dataset\<lparr>SliceLocation := Val z, pixel_array := Some [[v]]\<rparr>"

definition undecodable_study :: "dataset option list" where
  "undecodable_study = [None, Some (bare_dataset\<lparr>pixel_array := None\<rparr>)]"

section \<open>Properties of the depth trimmer\<close>

subsection \<open>The scanning loops and the index arithmetic\<close>

lemma scan_up_Some:
  "scan_up t xs i = Some k \<Longrightarrow>
     i \<le> k \<and> k < length xs \<and> t (xs ! k) \<and> (\<forall>j. i \<le> j \<and> j < k \<longrightarrow> \<not> t (xs ! j))"
proof (induction t xs i rule: scan_up.induct)
  case (1 t xs i)
  show ?case
  proof (cases "i < length xs \<and> \<not> t (xs ! i)")
    case True
    with "1.prems" have "scan_up t xs (Suc i) = Some k"
      by (simp add: scan_up.simps [of t xs i])
    with "1.IH" True have ih: "Suc i \<le> k \<and> k < length xs \<and> t (xs ! k) \<and>
        (\<forall>j. Suc i \<le> j \<and> j < k \<longrightarrow> \<not> t (xs ! j))"
      by simp
    have "\<not> t (xs ! j)" if "i \<le> j" "j < k" for j
    proof (cases "j = i")
      case True
      then show ?thesis using \<open>i < length xs \<and> \<not> t (xs ! i)\<close> by simp
    next
      case False
      with that ih show ?thesis by simp
    qed
    with ih show ?thesis by auto
  next
    case False
    with "1.prems" show ?thesis
      by (auto simp: scan_up.simps [of t xs i] split: if_splits)
  qed
qed

lemma scan_up_None:
  "scan_up t xs i = None \<Longrightarrow> i \<le> j \<Longrightarrow> j < length xs \<Longrightarrow> \<not> t (xs ! j)"
proof (induction t xs i rule: scan_up.induct)
  case (1 t xs i)
  from "1.prems" have il: "i < length xs" by simp
  from "1.prems"(1) il have nt: "\<not> t (xs ! i)" and rest: "scan_up t xs (Suc i) = None"
    by (auto simp: scan_up.simps [of t xs i] split: if_splits)
  show ?case
  proof (cases "j = i")
    case True
    with nt show ?thesis by simp
  next
    case False
    with "1.prems" have "Suc i \<le> j" by simp
    with "1.IH" il nt rest "1.prems"(3) show ?thesis by simp
  qed
qed

lemma scan_down_Some:
  "scan_down t xs n = Some k \<Longrightarrow>
     k < n \<and> t (xs ! k) \<and> (\<forall>j. k < j \<and> j < n \<longrightarrow> \<not> t (xs ! j))"
proof (induction n)
  case 0
  then show ?case by simp
next
  case (Suc n)
  show ?case
  proof (cases "t (xs ! n)")
    case True
    with Suc.prems show ?thesis by auto
  next
    case False
    with Suc.prems have "scan_down t xs n = Some k" by simp
    with Suc.IH have ih: "k < n \<and> t (xs ! k) \<and> (\<forall>j. k < j \<and> j < n \<longrightarrow> \<not> t (xs ! j))" .
    with False show ?thesis by (auto simp: less_Suc_eq)
  qed
qed

lemma scan_down_None:
  "scan_down t xs n = None \<Longrightarrow> j < n \<Longrightarrow> \<not> t (xs ! j)"
  by (induction n) (auto simp: less_Suc_eq split: if_splits)

lemma select_range_bounds:
  assumes "normalized \<noteq> []" and "select_range normalized thr max_mode = (s, e)"
  shows "0 \<le> s \<and> s \<le> e \<and> e < int (length normalized)"
proof -
  define t where "t = (if max_mode then (\<lambda>x. x \<ge> thr) else (\<lambda>x::real. x < thr))"
  from assms(1) have len: "0 < length normalized" by simp
  from assms(2) have s: "s = (case scan_up t normalized 0 of Some i \<Rightarrow> int i | None \<Rightarrow> 0)"
    and e: "e = (case scan_down t normalized (length normalized) of Some i \<Rightarrow> int i
                  | None \<Rightarrow> int (length normalized) - 1)"
    by (simp_all add: select_range_def Let_def t_def)
  show ?thesis
  proof (cases "scan_up t normalized 0")
    case None
    have "scan_down t normalized (length normalized) = None"
    proof (cases "scan_down t normalized (length normalized)")
      case (Some k)
      from scan_down_Some [OF Some] scan_up_None [OF None, of k] show ?thesis by simp
    qed simp
    with None s e len show ?thesis by simp
  next
    case (Some a)
    note up = scan_up_Some [OF Some]
    show ?thesis
    proof (cases "scan_down t normalized (length normalized)")
      case None
      from scan_down_None [OF None, of a] up show ?thesis by simp
    next
      case (Some b)
      note down = scan_down_Some [OF Some]
      have "a \<le> b"
      proof (rule ccontr)
        assume "\<not> a \<le> b"
        with down up show False by auto
      qed
      with \<open>scan_up t normalized 0 = Some a\<close> Some s e down show ?thesis by simp
    qed
  qed
qed

lemma ensure_min_slices_bounds:
  assumes "0 \<le> s" "s \<le> e" "e < depth"
    and "ensure_min_slices depth s e m = ((s', e'), lg)"
  shows "0 \<le> s' \<and> s' \<le> e' \<and> e' \<le> depth - 1"
proof (cases "e - s + 1 < m")
  case True
  with assms(1,2) have m: "2 \<le> m" by linarith
  define c where "c = (s + e) div 2"
  from assms(1-3) have c: "0 \<le> c" "c \<le> depth - 1" unfolding c_def by linarith+
  from m have h: "0 \<le> m div 2" by simp
  from True assms(4) have s': "s' = max 0 (c - m div 2)"
    and e': "e' = min (depth - 1) (s' + m - 1)"
    by (auto simp add: ensure_min_slices_def Let_def c_def)
  from s' c h have "0 \<le> s'" "s' \<le> depth - 1" by linarith+
  with e' m show ?thesis by linarith
next
  case False
  with assms show ?thesis by (simp add: ensure_min_slices_def Let_def)
qed

lemma normalized_intensities_Inr:
  "xs \<noteq> [] \<Longrightarrow> \<exists>n. normalized_intensities xs = Inr n \<and> length n = length xs"
  by (cases xs) (simp_all add: normalized_intensities_def)

text \<open>A volume of depth 0 makes \<open>slice_intensities.max()\<close> raise.\<close>

lemma trim_empty_raises:
  "\<exists>msg. trim_volume_by_threshold [] thr m mm = Inl (ValueError msg)"
  by (simp add: trim_volume_by_threshold_def trim_range_def normalized_intensities_def)

lemma py_slice_inside:
  assumes "0 \<le> a" "a \<le> b" "b \<le> int (length xs)"
  shows "py_slice xs a b = take (nat (b - a)) (drop (nat a) xs)"
    and "length (py_slice xs a b) = nat (b - a)"
    and "i < nat (b - a) \<Longrightarrow> py_slice xs a b ! i = xs ! (nat a + i)"
proof -
  from assms show eq: "py_slice xs a b = take (nat (b - a)) (drop (nat a) xs)"
    by (simp add: py_slice_def Let_def min_def)
  from assms show "length (py_slice xs a b) = nat (b - a)"
    unfolding eq by simp
  from assms show "i < nat (b - a) \<Longrightarrow> py_slice xs a b ! i = xs ! (nat a + i)"
    unfolding eq by simp
qed

lemma scan_up_eval:
  "scan_up t [] i = None"
  "i < length (x # xs) \<Longrightarrow>
     scan_up t (x # xs) i = (if t ((x # xs) ! i) then Some i else scan_up t (x # xs) (Suc i))"
  "\<not> i < length (x # xs) \<Longrightarrow> scan_up t (x # xs) i = None"
  by (simp_all add: scan_up.simps [of t _ i])

lemma trim_range_bounds:
  assumes "vol \<noteq> []"
  shows "\<exists>s e lg. trim_range vol thr m mm = Inr ((s, e), lg) \<and>
           0 \<le> s \<and> s \<le> e \<and> e \<le> int (length vol) - 1"
proof -
  from assms have "map slice_mean vol \<noteq> []" by simp
  from normalized_intensities_Inr [OF this]
  obtain ns where ns: "normalized_intensities (map slice_mean vol) = Inr ns"
    and len: "length ns = length vol" by auto
  obtain s0 e0 where sel: "select_range ns thr mm = (s0, e0)" by (cases "select_range ns thr mm")
  from assms len have "ns \<noteq> []" by auto
  from select_range_bounds [OF this sel] len
  have b0: "0 \<le> s0" "s0 \<le> e0" "e0 < int (length vol)" by simp_all
  obtain s e lg where ens: "ensure_min_slices (int (length vol)) s0 e0 m = ((s, e), lg)"
    by (metis prod.exhaust)
  from ensure_min_slices_bounds [OF b0 ens]
  have "0 \<le> s \<and> s \<le> e \<and> e \<le> int (length vol) - 1" .
  moreover from ns sel ens have "trim_range vol thr m mm = Inr ((s, e), lg)"
    by (simp add: trim_range_def)
  ultimately show ?thesis by blast
qed

lemmas trim_eval = trim_volume_by_threshold_def trim_range_def slice_mean_def
  normalized_intensities_def select_range_def scan_up_eval ensure_min_slices_def py_slice_def Let_def


subsection \<open>The returned sub-range\<close>

text \<open>
  Claim C10. For every volume of depth at least 1 and every minimum slice count of at
  least 1, the trimmer does not raise and returns \<open>volume[start : end + 1]\<close> for
  indices with 0 \<le> start \<le> end \<le> depth - 1: a non-empty run of consecutive depth
  slices, each equal to the input slice at the same position.
\<close>

theorem trim_keeps_nonempty_subrange:
  assumes "1 \<le> length vol" and "1 \<le> m"
  shows "\<exists>start_idx end_idx lg.
           trim_volume_by_threshold vol thr m mm = Inr (py_slice vol start_idx (end_idx + 1), lg) \<and>
           0 \<le> start_idx \<and> start_idx \<le> end_idx \<and> end_idx \<le> int (length vol) - 1 \<and>
           py_slice vol start_idx (end_idx + 1)
             = take (nat (end_idx - start_idx + 1)) (drop (nat start_idx) vol) \<and>
           length (py_slice vol start_idx (end_idx + 1)) = nat (end_idx - start_idx + 1) \<and>
           (\<forall>i < nat (end_idx - start_idx + 1).
              py_slice vol start_idx (end_idx + 1) ! i = vol ! (nat start_idx + i))"
proof -
  from assms(1) have "vol \<noteq> []" by auto
  from trim_range_bounds [OF this, of thr m mm]
  obtain s e lg where r: "trim_range vol thr m mm = Inr ((s, e), lg)"
    and b: "0 \<le> s" "s \<le> e" "e \<le> int (length vol) - 1" by blast
  from b have b': "0 \<le> s" "s \<le> e + 1" "e + 1 \<le> int (length vol)" by simp_all
  from r have "trim_volume_by_threshold vol thr m mm = Inr (py_slice vol s (e + 1), lg)"
    by (simp add: trim_volume_by_threshold_def)
  moreover have "py_slice vol s (e + 1) = take (nat (e - s + 1)) (drop (nat s) vol)"
    using py_slice_inside(1) [OF b'] by (simp add: algebra_simps)
  moreover have "length (py_slice vol s (e + 1)) = nat (e - s + 1)"
    using py_slice_inside(2) [OF b'] by (simp add: algebra_simps)
  moreover have "\<forall>i < nat (e - s + 1). py_slice vol s (e + 1) ! i = vol ! (nat s + i)"
    using py_slice_inside(3) [OF b'] by (simp add: algebra_simps)
  ultimately show ?thesis using b by blast
qed

theorem trim_keeps_nonempty_subrange_witness:
  "1 \<le> length study_short \<and> (1::int) \<le> 5 \<and>
   (\<exists>start_idx end_idx lg.
      trim_volume_by_threshold study_short (1/2) 5 True
        = Inr (py_slice study_short start_idx (end_idx + 1), lg) \<and>
      0 \<le> start_idx \<and> start_idx \<le> end_idx \<and> end_idx \<le> int (length study_short) - 1 \<and>
      length (py_slice study_short start_idx (end_idx + 1)) = nat (end_idx - start_idx + 1))"
proof -
  have h1: "1 \<le> length study_short" by (simp add: study_short_def)
  have h2: "(1::int) \<le> 5" by simp
  from trim_keeps_nonempty_subrange [OF h1 h2, of "1/2" True] h1 h2
  show ?thesis by blast
qed

subsection \<open>The minimum number of slices\<close>

text \<open>
  Claim C1 says that the returned depth is at least \<open>min_slices_to_keep\<close> whenever the
  input depth is, and that a shallower input is returned whole. The code does neither
  when the found range lies near the last slice: the end is clamped to depth - 1 and
  the start is not moved down. Evaluated here: a volume of depth 10 whose last slice
  alone reaches the threshold, with a minimum of 8, comes back with 5 slices; a volume
  of depth 4 with a minimum of 5 comes back with 3 slices.
\<close>

theorem trim_falls_short_at_upper_bound:
  "trim_volume_by_threshold study_bright_last (1/2) 8 True
     = Inr ([[[0]], [[0]], [[0]], [[0]], [[1]]],
            [(INFO, ''Expanded range to meet minimum slice requirement'')]) \<and>
   length study_bright_last = 10 \<and>
   length [[[0::real]], [[0]], [[0]], [[0]], [[1]]] < nat 8 \<and>
   trim_volume_by_threshold study_short (1/2) 5 True
     = Inr ([[[0]], [[0]], [[1]]],
            [(INFO, ''Expanded range to meet minimum slice requirement'')]) \<and>
   length study_short = 4 \<and>
   [[[0::real]], [[0]], [[1]]] \<noteq> study_short"
  by (simp add: trim_eval study_bright_last_def study_short_def)

subsection \<open>The re-centering\<close>

text \<open>
  The re-centering of claim C2, taken as the specification words it, is not what the
  code computes. With a minimum of 4 and slice 2 of 6 found, the prose gives the range
  0..4 and the code 0..3: the end is the start plus the minimum count minus one, not the
  midpoint plus half the count. With a minimum of 8 and slice 9 of 10 found, the prose
  gives 2..9 and the code 5..9: nothing extends the range downward.
\<close>

theorem recenter_spec_counterexample:
  "trim_range study_bright_third (1/2) 4 True
     = Inr ((0, 3), [(INFO, ''Expanded range to meet minimum slice requirement'')]) \<and>
   select_range [0, 0, 100000000 / 100000001, 0, 0, 0] (1/2) True = (2, 2) \<and>
   (2::int) - 2 + 1 < 4 \<and>
   fst (ensure_min_slices 6 2 2 4) = (0, 3) \<and>
   recenter_spec 6 2 2 4 = (0, 4) \<and>
   fst (ensure_min_slices 6 2 2 4) \<noteq> recenter_spec 6 2 2 4 \<and>
   trim_range study_bright_last (1/2) 8 True
     = Inr ((5, 9), [(INFO, ''Expanded range to meet minimum slice requirement'')]) \<and>
   recenter_spec 10 9 9 8 = (2, 9)"
  by (simp add: trim_eval study_bright_last_def study_bright_third_def recenter_spec_def)

text \<open>
  Claim C2, amended. Whenever the range first selected is shorter than the minimum
  count, the trimmer logs the expansion and, with s0 the floor midpoint of the found
  range minus half the minimum count (floor division), not below 0: if s0 plus the
  minimum count minus one is a valid index, the final range starts at s0 and has
  exactly the minimum count of slices; otherwise the final range ends at the last
  index. In both cases 0 \<le> start \<le> end \<le> depth - 1.
\<close>

theorem expansion_recenters:
  assumes "vol \<noteq> []"
    and "normalized_intensities (map slice_mean vol) = Inr ns"
    and "select_range ns thr mm = (s, e)"
    and "e - s + 1 < m"
  shows "\<exists>start_idx end_idx.
           trim_range vol thr m mm
             = Inr ((start_idx, end_idx), [(INFO, ''Expanded range to meet minimum slice requirement'')]) \<and>
           (if max 0 ((s + e) div 2 - m div 2) + m - 1 \<le> int (length vol) - 1
            then start_idx = max 0 ((s + e) div 2 - m div 2) \<and> end_idx = start_idx + m - 1
            else end_idx = int (length vol) - 1) \<and>
           0 \<le> start_idx \<and> start_idx \<le> end_idx \<and> end_idx \<le> int (length vol) - 1"
proof -
  define s0 where "s0 = max 0 ((s + e) div 2 - m div 2)"
  define e1 where "e1 = min (int (length vol) - 1) (s0 + m - 1)"
  from assms(4) have ens: "ensure_min_slices (int (length vol)) s e m
      = ((s0, e1), [(INFO, ''Expanded range to meet minimum slice requirement'')])"
    by (simp add: ensure_min_slices_def Let_def s0_def e1_def)
  with assms(2,3) have r: "trim_range vol thr m mm
      = Inr ((s0, e1), [(INFO, ''Expanded range to meet minimum slice requirement'')])"
    by (simp add: trim_range_def)
  from trim_range_bounds [OF assms(1), of thr m mm] r
  have b: "0 \<le> s0" "s0 \<le> e1" "e1 \<le> int (length vol) - 1" by auto
  have "if s0 + m - 1 \<le> int (length vol) - 1 then s0 = s0 \<and> e1 = s0 + m - 1
        else e1 = int (length vol) - 1"
    by (simp add: e1_def)
  with r b show ?thesis unfolding s0_def by blast
qed

theorem expansion_recenters_witness:
  "study_bright_third \<noteq> [] \<and>
   normalized_intensities (map slice_mean study_bright_third)
     = Inr [0, 0, 100000000 / 100000001, 0, 0, 0] \<and>
   select_range [0, 0, 100000000 / 100000001, 0, 0, 0] (1/2) True = (2, 2) \<and>
   (2::int) - 2 + 1 < 4 \<and>
   trim_range study_bright_third (1/2) 4 True
     = Inr ((0, 3), [(INFO, ''Expanded range to meet minimum slice requirement'')])"
proof -
  have h1: "study_bright_third \<noteq> []" by (simp add: study_bright_third_def)
  have h2: "normalized_intensities (map slice_mean study_bright_third)
     = Inr [0, 0, 100000000 / 100000001, 0, 0, 0]"
    by (simp add: trim_eval study_bright_third_def)
  have h3: "select_range [0, 0, 100000000 / 100000001, 0, 0, 0] (1/2) True = (2, 2)"
    by (simp add: trim_eval)
  have h4: "(2::int) - 2 + 1 < 4" by simp
  have len: "int (length study_bright_third) = 6" by (simp add: study_bright_third_def)
  from expansion_recenters [OF h1 h2 h3 h4] len
  have "trim_range study_bright_third (1/2) 4 True
     = Inr ((0, 3), [(INFO, ''Expanded range to meet minimum slice requirement'')])"
    by auto
  with h1 h2 h3 h4 show ?thesis by blast
qed

subsection \<open>Keep-above and keep-below on a ramp\<close>



section \<open>Properties of the rounding\<close>

lemma rhe_of_int: "round_half_even (of_int n) = n"
  by (simp add: round_half_even_def)

lemma rhe_between: "\<lfloor>y\<rfloor> \<le> round_half_even y \<and> round_half_even y \<le> \<lfloor>y\<rfloor> + 1"
  by (simp add: round_half_even_def Let_def)

lemma rhe_mono:
  assumes "x \<le> y"
  shows "round_half_even x \<le> round_half_even y"
proof (cases "\<lfloor>x\<rfloor> = \<lfloor>y\<rfloor>")
  case True
  with assms have "x - of_int \<lfloor>x\<rfloor> \<le> y - of_int \<lfloor>y\<rfloor>" by simp
  with True show ?thesis by (auto simp: round_half_even_def Let_def)
next
  case False
  with assms have lt: "\<lfloor>x\<rfloor> < \<lfloor>y\<rfloor>" by (simp add: floor_mono order.not_eq_order_implies_strict)
  from rhe_between [of x] rhe_between [of y] lt show ?thesis by linarith
qed

lemma rhe_lower: "of_int n \<le> y \<Longrightarrow> n \<le> round_half_even y"
  using rhe_mono [of "of_int n" y] by (simp add: rhe_of_int)

lemma rhe_upper: "y \<le> of_int n \<Longrightarrow> round_half_even y \<le> n"
  using rhe_mono [of y "of_int n"] by (simp add: rhe_of_int)

lemma rhe_near:
  assumes "0 \<le> d" "d < 1 / 2"
  shows "round_half_even (of_int n + d) = n"
proof -
  from assms have "\<lfloor>of_int n + d\<rfloor> = n" by (simp add: floor_unique)
  with assms show ?thesis by (simp add: round_half_even_def Let_def)
qed

lemma powr_powi_2: "(2::real) powr real_of_int k = 2 powi k"
  by (rule powr_real_of_int') simp_all

lemma powr_powi_2_Suc: "(2::real) powr (real_of_int k + 1) = 2 powi (k + 1)"
  using powr_powi_2 [of "k + 1"] by (simp add: add.commute)

lemma floor_log2_bounds:
  assumes "0 < x"
  shows "2 powi \<lfloor>log 2 x\<rfloor> \<le> x" and "x < 2 powi (\<lfloor>log 2 x\<rfloor> + 1)"
proof -
  have "\<lfloor>log 2 x\<rfloor> = \<lfloor>log 2 x\<rfloor>" ..
  with floor_log_eq_powr_iff [of x 2 "\<lfloor>log 2 x\<rfloor>"] assms
  have "2 powr real_of_int \<lfloor>log 2 x\<rfloor> \<le> x \<and> x < 2 powr (real_of_int \<lfloor>log 2 x\<rfloor> + 1)"
    by fastforce
  then show "2 powi \<lfloor>log 2 x\<rfloor> \<le> x" and "x < 2 powi (\<lfloor>log 2 x\<rfloor> + 1)"
    unfolding powr_powi_2 powr_powi_2_Suc by blast+
qed

lemma floor_log2_eqI:
  assumes "2 powi k \<le> x" "x < 2 powi (k + 1)"
  shows "\<lfloor>log 2 x\<rfloor> = k"
proof -
  have "0 < (2::real) powi k" by simp
  with assms(1) have pos: "0 < x" by linarith
  from assms have "2 powr real_of_int k \<le> x \<and> x < 2 powr (real_of_int k + 1)"
    unfolding powr_powi_2 powr_powi_2_Suc by blast
  with floor_log_eq_powr_iff [of x 2 k] pos show ?thesis by fastforce
qed

lemma floor_log2_mono:
  assumes "0 < x" "x \<le> y"
  shows "\<lfloor>log 2 x\<rfloor> \<le> \<lfloor>log 2 y\<rfloor>"
proof -
  from assms have "log 2 x \<le> log 2 y" by simp
  then show ?thesis by (rule floor_mono)
qed

lemma precision_ge: "2 \<le> precision dt"
  by (cases dt) simp_all

lemma emin_le: "emin dt \<le> - 126"
  by (cases dt) simp_all

lemma exponent_ge_emin: "emin dt \<le> exponent dt x"
  by (simp add: exponent_def)

lemma exponent_mono:
  assumes "0 < x" "x \<le> y"
  shows "exponent dt x \<le> exponent dt y"
proof -
  from assms have "\<lfloor>log 2 x\<rfloor> \<le> \<lfloor>log 2 y\<rfloor>" by (rule floor_log2_mono)
  with assms show ?thesis by (simp add: exponent_def max.coboundedI1)
qed

lemma lt_next_binade:
  assumes "0 < x"
  shows "x < 2 powi (exponent dt x + 1)"
proof -
  have "\<lfloor>log 2 x\<rfloor> + 1 \<le> exponent dt x + 1" using assms by (simp add: exponent_def)
  then have "(2::real) powi (\<lfloor>log 2 x\<rfloor> + 1) \<le> 2 powi (exponent dt x + 1)"
    by (rule power_int_increasing) simp
  with floor_log2_bounds(2) [OF assms] show ?thesis by linarith
qed

lemma exponent_eqI:
  assumes "2 powi k \<le> x" "x < 2 powi (k + 1)" "emin dt \<le> k"
  shows "exponent dt x = k"
proof -
  have "0 < (2::real) powi k" by simp
  with assms(1) have "0 < x" by linarith
  with floor_log2_eqI [OF assms(1,2)] assms(3) show ?thesis by (simp add: exponent_def)
qed

lemma exponent_normal:
  assumes "2 powi (emin dt) \<le> x"
  shows "exponent dt x = \<lfloor>log 2 x\<rfloor>"
proof -
  have "0 < (2::real) powi (emin dt)" by simp
  with assms have pos: "0 < x" by linarith
  have "emin dt \<le> \<lfloor>log 2 x\<rfloor>"
  proof (rule ccontr)
    assume "\<not> emin dt \<le> \<lfloor>log 2 x\<rfloor>"
    then have "\<lfloor>log 2 x\<rfloor> + 1 \<le> emin dt" by simp
    then have "(2::real) powi (\<lfloor>log 2 x\<rfloor> + 1) \<le> 2 powi (emin dt)"
      by (rule power_int_increasing) simp
    with floor_log2_bounds(2) [OF pos] assms show False by linarith
  qed
  with pos show ?thesis by (simp add: exponent_def)
qed

lemma ge_binade:
  assumes "2 powi (emin dt) \<le> x"
  shows "2 powi (exponent dt x) \<le> x"
proof -
  have "0 < (2::real) powi (emin dt)" by simp
  with assms have pos: "0 < x" by linarith
  from exponent_normal [OF assms] floor_log2_bounds(1) [OF pos] show ?thesis by simp
qed

lemma exponent_subnormal:
  assumes "0 < x" "x < 2 powi (emin dt)"
  shows "exponent dt x = emin dt"
proof -
  have "\<lfloor>log 2 x\<rfloor> \<le> emin dt"
  proof (rule ccontr)
    assume "\<not> \<lfloor>log 2 x\<rfloor> \<le> emin dt"
    then have "emin dt \<le> \<lfloor>log 2 x\<rfloor>" by simp
    then have "(2::real) powi (emin dt) \<le> 2 powi \<lfloor>log 2 x\<rfloor>"
      by (rule power_int_increasing) simp
    with floor_log2_bounds(1) [OF assms(1)] assms(2) show False by linarith
  qed
  with assms(1) show ?thesis by (simp add: exponent_def)
qed

lemma powi_nat: "0 \<le> k \<Longrightarrow> (2::real) powi k = 2 ^ nat k"
  by (simp add: power_int_def)

lemma ulp_pos: "0 < ulp dt x"
  by (simp add: ulp_def)

lemma powi_split: "0 \<le> a \<Longrightarrow> (2::real) powi (a + b) = 2 ^ nat a * 2 powi b"
  by (simp add: power_int_add powi_nat)

lemma ulp_ratio:
  assumes "0 < x" "x \<le> y"
  shows "ulp dt y = ulp dt x * 2 ^ nat (exponent dt y - exponent dt x)"
proof -
  from exponent_mono [OF assms] have le: "0 \<le> exponent dt y - exponent dt x" by simp
  have eq: "exponent dt y - precision dt + 1
      = (exponent dt y - exponent dt x) + (exponent dt x - precision dt + 1)"
    by simp
  show ?thesis
    unfolding ulp_def by (subst eq) (simp only: powi_split [OF le] mult.commute)
qed

lemma binade_ulp:
  "2 powi (exponent dt x + 1) = 2 ^ nat (precision dt) * ulp dt x"
  "2 powi (exponent dt x) = 2 ^ nat (precision dt - 1) * ulp dt x"
proof -
  from precision_ge [of dt] have p: "0 \<le> precision dt" "0 \<le> precision dt - 1" by simp_all
  have eq1: "exponent dt x + 1 = precision dt + (exponent dt x - precision dt + 1)"
    by simp
  show "2 powi (exponent dt x + 1) = 2 ^ nat (precision dt) * ulp dt x"
    unfolding ulp_def by (subst eq1) (rule powi_split [OF p(1)])
  have eq2: "exponent dt x = (precision dt - 1) + (exponent dt x - precision dt + 1)"
    by simp
  show "2 powi (exponent dt x) = 2 ^ nat (precision dt - 1) * ulp dt x"
    unfolding ulp_def by (subst eq2) (rule powi_split [OF p(2)])
qed

lemma fl_zero: "fl dt 0 = 0"
  by (simp add: fl_def)

lemma fl_nonneg:
  assumes "0 \<le> x"
  shows "0 \<le> fl dt x"
proof (cases "x = 0")
  case False
  with assms have "0 \<le> x / ulp dt x" using ulp_pos [of dt x] by simp
  then have "(0::int) \<le> round_half_even (x / ulp dt x)"
    using rhe_lower [of 0 "x / ulp dt x"] by simp
  with False ulp_pos [of dt x] show ?thesis by (simp add: fl_def)
qed (simp add: fl_def)

lemma fl_upper:
  assumes "0 < x"
  shows "fl dt x \<le> 2 powi (exponent dt x + 1)"
proof -
  from lt_next_binade [OF assms, of dt] have "x \<le> 2 ^ nat (precision dt) * ulp dt x"
    by (simp add: binade_ulp(1))
  then have "x / ulp dt x \<le> of_int (2 ^ nat (precision dt))"
    using ulp_pos [of dt x] by (simp add: field_simps)
  from rhe_upper [OF this]
  have "of_int (round_half_even (x / ulp dt x)) * ulp dt x
      \<le> of_int (2 ^ nat (precision dt)) * ulp dt x"
    using ulp_pos [of dt x] by (simp only: mult_le_cancel_right_pos of_int_le_iff)
  with assms show ?thesis by (simp add: fl_def binade_ulp(1))
qed

lemma fl_lower:
  assumes "0 < x" "2 powi (exponent dt x) \<le> x"
  shows "2 powi (exponent dt x) \<le> fl dt x"
proof -
  from assms(2) have "2 ^ nat (precision dt - 1) * ulp dt x \<le> x"
    by (simp add: binade_ulp(2))
  then have "of_int (2 ^ nat (precision dt - 1)) \<le> x / ulp dt x"
    using ulp_pos [of dt x] by (simp add: field_simps)
  from rhe_lower [OF this]
  have "of_int (2 ^ nat (precision dt - 1)) * ulp dt x
      \<le> of_int (round_half_even (x / ulp dt x)) * ulp dt x"
    using ulp_pos [of dt x] by (simp only: mult_le_cancel_right_pos of_int_le_iff)
  with assms show ?thesis by (simp add: fl_def binade_ulp(2))
qed

lemma fl_mono:
  assumes "0 \<le> x" "x \<le> y"
  shows "fl dt x \<le> fl dt y"
proof (cases "x = 0")
  case True
  with assms fl_nonneg [of y dt] show ?thesis by (simp add: fl_zero)
next
  case False
  with assms have pos: "0 < x" "0 < y" by simp_all
  from exponent_mono [OF pos(1) assms(2), of dt] have le: "exponent dt x \<le> exponent dt y" .
  show ?thesis
  proof (cases "exponent dt x = exponent dt y")
    case True
    then have u: "ulp dt x = ulp dt y" by (simp add: ulp_def)
    from assms(2) have "x / ulp dt y \<le> y / ulp dt y"
      using ulp_pos [of dt y] by (simp add: divide_right_mono)
    from rhe_mono [OF this]
    have "of_int (round_half_even (x / ulp dt y)) * ulp dt y
        \<le> of_int (round_half_even (y / ulp dt y)) * ulp dt y"
      using ulp_pos [of dt y] by (simp only: mult_le_cancel_right_pos of_int_le_iff)
    with pos u show ?thesis by (simp add: fl_def)
  next
    case False
    with le have lt: "exponent dt x + 1 \<le> exponent dt y" by simp
    then have "emin dt < exponent dt y" using exponent_ge_emin [of dt x] by linarith
    then have ey: "exponent dt y = \<lfloor>log 2 y\<rfloor>" using pos(2) by (simp add: exponent_def)
    with floor_log2_bounds(1) [OF pos(2)] have "2 powi (exponent dt y) \<le> y" by simp
    from fl_lower [OF pos(2) this] have "2 powi (exponent dt y) \<le> fl dt y" .
    moreover from lt have "(2::real) powi (exponent dt x + 1) \<le> 2 powi (exponent dt y)"
      by (rule power_int_increasing) simp
    moreover note fl_upper [OF pos(1), of dt]
    ultimately show ?thesis by linarith
  qed
qed

lemma fl_fix:
  assumes "x = of_int n * ulp dt x"
  shows "fl dt x = x"
proof (cases "x = 0")
  case False
  from assms have "x / ulp dt x = of_int n" using ulp_pos [of dt x] by (simp add: field_simps)
  then have "round_half_even (x / ulp dt x) = n" by (simp add: rhe_of_int)
  with False assms show ?thesis by (simp add: fl_def)
qed (simp add: fl_def)

lemma exponent_le:
  assumes "0 < y" "y < 2 powi (k + 1)" "emin dt \<le> k"
  shows "exponent dt y \<le> k"
proof -
  have "\<lfloor>log 2 y\<rfloor> \<le> k"
  proof (rule ccontr)
    assume "\<not> \<lfloor>log 2 y\<rfloor> \<le> k"
    then have "k + 1 \<le> \<lfloor>log 2 y\<rfloor>" by simp
    then have "(2::real) powi (k + 1) \<le> 2 powi \<lfloor>log 2 y\<rfloor>"
      by (rule power_int_increasing) simp
    with floor_log2_bounds(1) [OF assms(1)] assms(2) show False by linarith
  qed
  with assms(1,3) show ?thesis by (simp add: exponent_def)
qed

lemma exponent_ge:
  assumes "2 powi k \<le> y"
  shows "k \<le> exponent dt y"
proof -
  have "0 < (2::real) powi k" by simp
  with assms have pos: "0 < y" by linarith
  have "k \<le> \<lfloor>log 2 y\<rfloor>"
  proof (rule ccontr)
    assume "\<not> k \<le> \<lfloor>log 2 y\<rfloor>"
    then have "\<lfloor>log 2 y\<rfloor> + 1 \<le> k" by simp
    then have "(2::real) powi (\<lfloor>log 2 y\<rfloor> + 1) \<le> 2 powi k"
      by (rule power_int_increasing) simp
    with floor_log2_bounds(2) [OF pos] assms show False by linarith
  qed
  with pos show ?thesis by (simp add: exponent_def max.coboundedI1)
qed

text \<open>A rounded value lies on the grid of its own binade.\<close>

lemma fl_grid:
  assumes "0 < z"
  shows "\<exists>m. fl dt z = of_int m * ulp dt (fl dt z)"
proof -
  define e where "e = exponent dt z"
  define n where "n = round_half_even (z / ulp dt z)"
  from assms have flz: "fl dt z = of_int n * ulp dt z" by (simp add: fl_def n_def)
  from fl_upper [OF assms, of dt] have up: "fl dt z \<le> 2 powi (e + 1)" by (simp add: e_def)
  from fl_nonneg [of z dt] assms have nn: "0 \<le> fl dt z" by simp
  consider "fl dt z = 0" | "fl dt z = 2 powi (e + 1)" | "0 < fl dt z" "fl dt z < 2 powi (e + 1)"
    using up nn by linarith
  then show ?thesis
  proof cases
    case 1
    then have "fl dt z = of_int 0 * ulp dt (fl dt z)" by simp
    then show ?thesis ..
  next
    case 2
    have "emin dt \<le> e + 1" using exponent_ge_emin [of dt z] by (simp add: e_def)
    moreover have "(2::real) powi (e + 1) < 2 powi (e + 1 + 1)"
      by (rule power_int_strict_increasing) simp_all
    ultimately have "exponent dt (fl dt z) = e + 1"
      using 2 by (intro exponent_eqI) simp_all
    with binade_ulp(2) [of dt "fl dt z"] 2
    have "fl dt z = of_int (2 ^ nat (precision dt - 1)) * ulp dt (fl dt z)" by simp
    then show ?thesis ..
  next
    case 3
    have le: "exponent dt (fl dt z) \<le> e"
      using 3 exponent_ge_emin [of dt z] by (intro exponent_le) (simp_all add: e_def)
    have ge: "e \<le> exponent dt (fl dt z)"
    proof (cases "2 powi (emin dt) \<le> z")
      case True
      from fl_lower [OF assms ge_binade [OF True]] show ?thesis
        unfolding e_def by (rule exponent_ge)
    next
      case False
      with assms have "exponent dt z = emin dt" by (intro exponent_subnormal) simp_all
      then show ?thesis using exponent_ge_emin [of dt "fl dt z"] by (simp add: e_def)
    qed
    from le ge have "exponent dt (fl dt z) = exponent dt z" by (simp add: e_def)
    then have "ulp dt (fl dt z) = ulp dt z" by (simp add: ulp_def)
    with flz show ?thesis by auto
  qed
qed

text \<open>Above a value on its grid, the next rounded value is at least one unit away.\<close>

lemma fl_gap:
  assumes "0 < r" "r = of_int n * ulp dt r" "r \<le> y"
  shows "fl dt y = r \<or> r + ulp dt r \<le> fl dt y"
proof -
  from assms have ypos: "0 < y" by simp
  from fl_mono [of r y dt] assms fl_fix [OF assms(2)] have ge: "r \<le> fl dt y" by simp
  from fl_grid [OF ypos, of dt] obtain m where m: "fl dt y = of_int m * ulp dt (fl dt y)" ..
  define j where "j = nat (exponent dt (fl dt y) - exponent dt r)"
  from ulp_ratio [OF assms(1) ge, of dt] have u: "ulp dt (fl dt y) = ulp dt r * 2 ^ j"
    by (simp add: j_def)
  have fy: "fl dt y = of_int (m * 2 ^ j) * ulp dt r"
    by (subst m) (simp add: u)
  have "of_int n * ulp dt r \<le> of_int (m * 2 ^ j) * ulp dt r"
    using ge assms(2) fy by simp
  then have "n \<le> m * 2 ^ j"
    using ulp_pos [of dt r] by (simp only: mult_le_cancel_right_pos of_int_le_iff)
  then consider "m * 2 ^ j = n" | "n + 1 \<le> m * 2 ^ j" by linarith
  then show ?thesis
  proof cases
    case 1
    with fy assms(2) show ?thesis by simp
  next
    case 2
    then have "of_int (n + 1) * ulp dt r \<le> of_int (m * 2 ^ j) * ulp dt r"
      using ulp_pos [of dt r] by (simp only: mult_le_cancel_right_pos of_int_le_iff)
    then have "r + ulp dt r \<le> fl dt y"
      unfolding fy [symmetric] using assms(2) by (simp add: algebra_simps)
    then show ?thesis ..
  qed
qed

lemma fl_fix_normal:
  assumes "emin dt \<le> k" "2 ^ nat (precision dt - 1) \<le> m" "m < 2 ^ nat (precision dt)"
  shows "fl dt (of_int m * 2 powi (k - precision dt + 1)) = of_int m * 2 powi (k - precision dt + 1)"
proof -
  define q :: real where "q = 2 powi (k - precision dt + 1)"
  define x where "x = of_int m * q"
  have qpos: "0 < q" by (simp add: q_def)
  from precision_ge [of dt] have p: "0 \<le> precision dt" "0 \<le> precision dt - 1" by simp_all
  have eq1: "k + 1 = precision dt + (k - precision dt + 1)" by simp
  have hi: "2 powi (k + 1) = 2 ^ nat (precision dt) * q"
    unfolding q_def by (subst eq1) (rule powi_split [OF p(1)])
  have eq2: "k = (precision dt - 1) + (k - precision dt + 1)" by simp
  have lo: "2 powi k = 2 ^ nat (precision dt - 1) * q"
    unfolding q_def by (subst eq2) (rule powi_split [OF p(2)])
  have "real_of_int (2 ^ nat (precision dt - 1)) \<le> of_int m" using assms(2) by (simp only: of_int_le_iff)
  then have "2 ^ nat (precision dt - 1) * q \<le> x" using qpos by (simp add: x_def)
  then have l: "2 powi k \<le> x" by (simp add: lo)
  have "real_of_int m < of_int (2 ^ nat (precision dt))" using assms(3) by (simp only: of_int_less_iff)
  then have "x < 2 ^ nat (precision dt) * q" using qpos by (simp add: x_def)
  then have h: "x < 2 powi (k + 1)" by (simp add: hi)
  from exponent_eqI [OF l h assms(1)] have "ulp dt x = q" by (simp add: ulp_def q_def)
  then have "x = of_int m * ulp dt x" by (simp add: x_def)
  then have "fl dt x = x" by (rule fl_fix)
  then show ?thesis by (simp add: x_def q_def)
qed

lemma fl_pow2:
  assumes "emin dt \<le> k"
  shows "fl dt (2 powi k) = 2 powi k"
proof -
  from precision_ge [of dt] have p: "0 \<le> precision dt - 1" by simp
  have eq2: "k = (precision dt - 1) + (k - precision dt + 1)" by simp
  have "(2::real) powi ((precision dt - 1) + (k - precision dt + 1))
      = 2 ^ nat (precision dt - 1) * 2 powi (k - precision dt + 1)"
    by (rule powi_split [OF p])
  then have lo: "(2::real) powi k
      = of_int (2 ^ nat (precision dt - 1)) * 2 powi (k - precision dt + 1)"
    by (simp only: eq2 [symmetric] of_int_power of_int_numeral)
  have lt: "(2::int) ^ nat (precision dt - 1) < 2 ^ nat (precision dt)"
    using precision_ge [of dt] by (intro power_strict_increasing) simp_all
  from fl_fix_normal [OF assms order_refl lt] show ?thesis by (simp only: lo [symmetric])
qed

lemma fl_one: "fl dt 1 = 1"
  using fl_pow2 [of dt 0] emin_le [of dt] by simp

lemma pow_cancel: "0 \<le> a \<Longrightarrow> 2 ^ nat a * (2::real) powi (- a) = 1"
  using powi_split [of a "- a"] by simp

lemma fl_below_one: "fl dt (1 - 2 powi (- precision dt)) = 1 - 2 powi (- precision dt)"
proof -
  from precision_ge [of dt] have p: "0 \<le> precision dt" by simp
  have e: "emin dt \<le> - 1" using emin_le [of dt] by simp
  have m1: "(2::int) ^ nat (precision dt - 1) \<le> 2 ^ nat (precision dt) - 1"
  proof -
    have "nat (precision dt) = Suc (nat (precision dt - 1))" using precision_ge [of dt] by simp
    then have "(2::int) ^ nat (precision dt) = 2 * 2 ^ nat (precision dt - 1)" by simp
    moreover have "(1::int) \<le> 2 ^ nat (precision dt - 1)" by simp
    ultimately show ?thesis by linarith
  qed
  have m2: "(2::int) ^ nat (precision dt) - 1 < 2 ^ nat (precision dt)" by simp
  have k: "- 1 - precision dt + 1 = - precision dt" by simp
  have "of_int (2 ^ nat (precision dt) - 1) * 2 powi (- precision dt)
      = 2 ^ nat (precision dt) * 2 powi (- precision dt) - (2::real) powi (- precision dt)"
    by (simp add: algebra_simps)
  also have "\<dots> = 1 - 2 powi (- precision dt)" by (simp only: pow_cancel [OF p])
  finally have eq: "of_int (2 ^ nat (precision dt) - 1) * 2 powi (- precision dt)
      = 1 - (2::real) powi (- precision dt)" .
  from fl_fix_normal [OF e m1 m2] show ?thesis by (simp only: k eq)
qed

lemma grid_index_bound:
  assumes "0 < r" "r = of_int n * ulp dt r"
  shows "0 < n" and "n + 1 \<le> 2 ^ nat (precision dt)"
proof -
  from assms ulp_pos [of dt r] have "0 < real_of_int n * ulp dt r" by simp
  then have "0 < real_of_int n" using ulp_pos [of dt r] by (simp add: zero_less_mult_iff)
  then show "0 < n" by simp
  from lt_next_binade [OF assms(1), of dt]
  have "of_int n * ulp dt r < of_int (2 ^ nat (precision dt)) * ulp dt r"
    using assms(2) by (simp add: binade_ulp(1))
  then have "n < 2 ^ nat (precision dt)"
    using ulp_pos [of dt r] by (simp only: mult_less_cancel_right_pos of_int_less_iff)
  then show "n + 1 \<le> 2 ^ nat (precision dt)" by simp
qed

lemma fl_quotient_below_one:
  assumes "0 < r" "r = of_int n * ulp dt r" "r \<le> y" "fl dt y \<noteq> r"
  shows "fl dt (r / fl dt y) < 1"
proof -
  define q where "q = ulp dt r"
  have qpos: "0 < q" by (simp add: q_def ulp_pos)
  from fl_gap [OF assms(1-3)] assms(4) have d: "r + q \<le> fl dt y" by (simp add: q_def)
  from grid_index_bound [OF assms(1,2)] have n: "0 < n" "n + 1 \<le> 2 ^ nat (precision dt)" .
  from precision_ge [of dt] have p: "0 \<le> precision dt" by simp
  define P :: real where "P = 2 ^ nat (precision dt)"
  have Ppos: "0 < P" by (simp add: P_def)
  have inv: "2 powi (- precision dt) = 1 / P"
    using pow_cancel [OF p] Ppos by (simp add: P_def field_simps)
  have "real_of_int (n + 1) \<le> of_int (2 ^ nat (precision dt))" using n(2) by (simp only: of_int_le_iff)
  then have nP: "real_of_int n + 1 \<le> P" by (simp add: P_def)
  have dpos: "0 < fl dt y" using d assms(1) qpos by linarith
  have rq: "r = of_int n * q" using assms(2) by (simp add: q_def)
  have "r * P \<le> (P - 1) * (r + q)"
  proof -
    have "(P - 1) * (r + q) - r * P = (P - 1 - of_int n) * q" by (simp add: rq algebra_simps)
    moreover have "0 \<le> (P - 1 - of_int n) * q" using nP qpos by simp
    ultimately show ?thesis by linarith
  qed
  also have "\<dots> \<le> (P - 1) * fl dt y"
    using d nP n(1) by (intro mult_left_mono) simp_all
  finally have "r * P \<le> (P - 1) * fl dt y" .
  then have "r / fl dt y \<le> (P - 1) / P"
    using dpos Ppos by (simp add: field_simps)
  also have "(P - 1) / P = 1 - 2 powi (- precision dt)"
    using Ppos by (simp add: inv field_simps)
  finally have le: "r / fl dt y \<le> 1 - 2 powi (- precision dt)" .
  have "0 \<le> r / fl dt y" using assms(1) dpos by simp
  from fl_mono [OF this le, of dt] have "fl dt (r / fl dt y) \<le> 1 - 2 powi (- precision dt)"
    by (simp only: fl_below_one)
  moreover have "0 < (2::real) powi (- precision dt)" by simp
  ultimately show ?thesis by linarith
qed

lemma fl_absorb:
  assumes "0 < r" "r = of_int n * ulp dt r" "0 \<le> e" "2 * e < ulp dt r"
  shows "fl dt (r + e) = r"
proof -
  define q where "q = ulp dt r"
  have qpos: "0 < q" by (simp add: q_def ulp_pos)
  from grid_index_bound [OF assms(1,2)] have n: "0 < n" "n + 1 \<le> 2 ^ nat (precision dt)" .
  have rq: "r = of_int n * q" using assms(2) by (simp add: q_def)
  have ypos: "0 < r + e" using assms by simp
  have "real_of_int (n + 1) \<le> of_int (2 ^ nat (precision dt))" using n(2) by (simp only: of_int_le_iff)
  then have "(real_of_int n + 1) * q \<le> 2 ^ nat (precision dt) * q"
    using qpos by simp
  moreover have "r + e < (real_of_int n + 1) * q"
  proof -
    from assms(4) have "2 * e < q" by (simp add: q_def)
    with qpos have "e < q" by linarith
    then have "of_int n * q + e < (real_of_int n + 1) * q" by (simp add: algebra_simps)
    then show ?thesis by (simp only: rq [symmetric])
  qed
  ultimately have "r + e < 2 powi (exponent dt r + 1)"
    by (simp add: binade_ulp(1) q_def)
  from exponent_le [OF ypos this exponent_ge_emin]
  have "exponent dt (r + e) \<le> exponent dt r" .
  moreover from exponent_mono [OF assms(1), of "r + e" dt] assms(3)
  have "exponent dt r \<le> exponent dt (r + e)" by simp
  ultimately have "exponent dt (r + e) = exponent dt r" by simp
  then have u: "ulp dt (r + e) = q" by (simp add: ulp_def q_def)
  have "(r + e) / q = of_int n + e / q" using qpos by (simp add: rq field_simps)
  moreover have "0 \<le> e / q" "e / q < 1 / 2"
  proof -
    from assms(4) have "2 * e < q" by (simp add: q_def)
    with assms(3) qpos show "0 \<le> e / q" "e / q < 1 / 2" by (simp_all add: field_simps)
  qed
  ultimately have "round_half_even ((r + e) / q) = n" by (simp add: rhe_near)
  with ypos u rq show ?thesis by (simp add: fl_def)
qed

lemma fl_qmin: "fl dt (qmin dt) = qmin dt"
proof -
  have pos: "0 < qmin dt" by (simp add: qmin_def)
  have "emin dt - precision dt + 1 < emin dt" using precision_ge [of dt] by simp
  then have "qmin dt < 2 powi (emin dt)"
    unfolding qmin_def by (rule power_int_strict_increasing) simp
  from exponent_subnormal [OF pos this] have "ulp dt (qmin dt) = qmin dt"
    by (simp add: ulp_def qmin_def)
  then have "qmin dt = of_int 1 * ulp dt (qmin dt)" by simp
  then show ?thesis by (rule fl_fix)
qed

lemma float_multiple:
  assumes "fl dt x = x"
  shows "\<exists>k. x = of_int k * qmin dt"
proof (cases "x = 0")
  case True
  then have "x = of_int 0 * qmin dt" by simp
  then show ?thesis ..
next
  case False
  define n where "n = round_half_even (x / ulp dt x)"
  from assms False have x: "x = of_int n * ulp dt x" by (simp add: fl_def n_def)
  have a: "0 \<le> exponent dt x - emin dt" using exponent_ge_emin [of dt x] by simp
  have eq: "exponent dt x - precision dt + 1
      = (exponent dt x - emin dt) + (emin dt - precision dt + 1)" by simp
  have "ulp dt x = 2 ^ nat (exponent dt x - emin dt) * qmin dt"
    unfolding ulp_def qmin_def by (subst eq) (rule powi_split [OF a])
  then have "x = of_int (n * 2 ^ nat (exponent dt x - emin dt)) * qmin dt"
    by (subst x) simp
  then show ?thesis ..
qed

lemma fl_difference_pos:
  assumes "fl dt a = a" "fl dt b = b" "b < a"
  shows "0 < fl dt (a - b)"
proof -
  from float_multiple [OF assms(1)] obtain ka where ka: "a = of_int ka * qmin dt" ..
  from float_multiple [OF assms(2)] obtain kb where kb: "b = of_int kb * qmin dt" ..
  have qpos: "0 < qmin dt" by (simp add: qmin_def)
  from assms(3) have "of_int kb * qmin dt < of_int ka * qmin dt" by (simp add: ka kb)
  then have "kb < ka" using qpos by (simp only: mult_less_cancel_right_pos of_int_less_iff)
  then have "1 \<le> ka - kb" by simp
  then have "real_of_int 1 \<le> of_int (ka - kb)" by (simp only: of_int_le_iff)
  then have "qmin dt \<le> of_int (ka - kb) * qmin dt" using qpos by simp
  then have "qmin dt \<le> a - b" by (simp add: ka kb algebra_simps)
  from fl_mono [OF _ this, of dt] qpos have "qmin dt \<le> fl dt (a - b)" by (simp add: fl_qmin)
  with qpos show ?thesis by linarith
qed

lemma fl_idem:
  assumes "0 \<le> z"
  shows "fl dt (fl dt z) = fl dt z"
proof (cases "z = 0")
  case False
  with assms have "0 < z" by simp
  from fl_grid [OF this, of dt] obtain m where "fl dt z = of_int m * ulp dt (fl dt z)" ..
  then show ?thesis by (rule fl_fix)
qed (simp add: fl_zero)

lemma fl_three_28: "fl dt (3 * 2 powi (- 28)) = 3 * 2 powi (- 28)"
proof -
  from precision_ge [of dt] have p: "0 \<le> precision dt - 2" by simp
  have e: "emin dt \<le> - 27" using emin_le [of dt] by simp
  have s1: "nat (precision dt - 1) = Suc (nat (precision dt - 2))"
    and s2: "nat (precision dt) = Suc (Suc (nat (precision dt - 2)))"
    using precision_ge [of dt] by simp_all
  have m1: "(2::int) ^ nat (precision dt - 1) \<le> 3 * 2 ^ nat (precision dt - 2)"
    by (simp add: s1)
  have m2: "(3::int) * 2 ^ nat (precision dt - 2) < 2 ^ nat (precision dt)"
    by (simp add: s2)
  have "(2::real) powi ((precision dt - 2) + (- 27 - precision dt + 1))
      = 2 ^ nat (precision dt - 2) * 2 powi (- 27 - precision dt + 1)"
    by (rule powi_split [OF p])
  moreover have "(precision dt - 2) + (- 27 - precision dt + 1) = - 28" by simp
  ultimately have "(2::real) powi (- 28) = 2 ^ nat (precision dt - 2) * 2 powi (- 27 - precision dt + 1)"
    by (simp only:)
  then have eq: "of_int (3 * 2 ^ nat (precision dt - 2)) * 2 powi (- 27 - precision dt + 1)
      = 3 * (2::real) powi (- 28)"
    by simp
  from fl_fix_normal [OF e m1 m2] show ?thesis by (simp only: eq)
qed

text \<open>The constant \<open>1e-8\<close>: a Python float, that is a float64, converted to the array's type.\<close>

lemma eps_lower: "2 powi (- 27) \<le> fl dt (fl Float64 (1 / 10 ^ 8))"
proof -
  have fx: "fl dt' (2 powi (- 27)) = 2 powi (- 27)" for dt'
  proof -
    have "emin dt' \<le> - 27" using emin_le [of dt'] by simp
    then show ?thesis by (rule fl_pow2)
  qed
  have c: "(2::real) powi (- 27) \<le> 1 / 10 ^ 8" by simp
  have n: "(0::real) \<le> 2 powi (- 27)" by simp
  from fl_mono [OF n c, of Float64] have le: "2 powi (- 27) \<le> fl Float64 (1 / 10 ^ 8)"
    by (simp only: fx)
  from fl_mono [OF n le, of dt] show ?thesis by (simp only: fx)
qed

lemma eps_upper: "fl dt (fl Float64 (1 / 10 ^ 8)) \<le> 3 * 2 powi (- 28)"
proof -
  have c: "(1::real) / 10 ^ 8 \<le> 3 * 2 powi (- 28)" by simp
  have n: "(0::real) \<le> 1 / 10 ^ 8" by simp
  from fl_mono [OF n c, of Float64] have le: "fl Float64 (1 / 10 ^ 8) \<le> 3 * 2 powi (- 28)"
    by (simp only: fl_three_28)
  have "0 \<le> fl Float64 (1 / 10 ^ 8)" using n by (rule fl_nonneg)
  from fl_mono [OF this le, of dt] show ?thesis by (simp only: fl_three_28)
qed

lemma eps_pos: "0 < fl dt (fl Float64 (1 / 10 ^ 8))"
proof -
  have "(0::real) < 2 powi (- 27)" by simp
  with eps_lower [of dt] show ?thesis by linarith
qed

lemma absorb_threshold:
  assumes "2 powi (precision dt - 26) \<le> z"
  shows "fl dt (fl dt z + fl dt (fl Float64 (1 / 10 ^ 8))) = fl dt z"
proof -
  have "(0::real) < 2 powi (precision dt - 26)" by simp
  with assms have zpos: "0 < z" by linarith
  have k: "emin dt \<le> precision dt - 26" using emin_le [of dt] precision_ge [of dt] by simp
  from fl_mono [OF _ assms, of dt] fl_pow2 [OF k]
  have r: "2 powi (precision dt - 26) \<le> fl dt z" by simp
  then have rpos: "0 < fl dt z" using \<open>(0::real) < 2 powi (precision dt - 26)\<close> by linarith
  from fl_grid [OF zpos, of dt] obtain n where grid: "fl dt z = of_int n * ulp dt (fl dt z)" ..
  from exponent_ge [OF r] have "precision dt - 26 \<le> exponent dt (fl dt z)" .
  then have "- 25 \<le> exponent dt (fl dt z) - precision dt + 1" by simp
  then have "(2::real) powi (- 25) \<le> ulp dt (fl dt z)"
    unfolding ulp_def by (rule power_int_increasing) simp
  moreover have "2 * (3 * (2::real) powi (- 28)) < 2 powi (- 25)" by simp
  ultimately have "2 * fl dt (fl Float64 (1 / 10 ^ 8)) < ulp dt (fl dt z)"
    using eps_upper [of dt] by linarith
  from fl_absorb [OF rpos grid _ this] eps_pos [of dt] show ?thesis by simp
qed

section \<open>Properties of the intensity normalizer\<close>

subsection \<open>Minimum and maximum\<close>

lemma np_min_Min: "xs \<noteq> [] \<Longrightarrow> np_min xs = Inr (Min (set xs))"
proof (cases xs)
  case (Cons y ys)
  then show ?thesis using Min.set_eq_fold [of y ys] by simp
qed simp

lemma np_max_Max: "xs \<noteq> [] \<Longrightarrow> np_max xs = Inr (Max (set xs))"
proof (cases xs)
  case (Cons y ys)
  then show ?thesis using Max.set_eq_fold [of y ys] by simp
qed simp

lemma nth3_in_concat:
  assumes "d < length vol" "h < length (vol ! d)" "w < length (vol ! d ! h)"
  shows "vol ! d ! h ! w \<in> set (concat (concat vol))"
proof -
  from assms(1) have "vol ! d \<in> set vol" by simp
  moreover from assms(2) have "vol ! d ! h \<in> set (vol ! d)" by simp
  moreover from assms(3) have "vol ! d ! h ! w \<in> set (vol ! d ! h)" by simp
  ultimately show ?thesis by auto
qed

subsection \<open>Global normalization\<close>

lemma fl_three_halves:
  "fl dt (3 * 2 powi (- emin dt)) = 3 * 2 powi (- emin dt)"
proof -
  from precision_ge [of dt] have p: "0 \<le> precision dt - 2" by simp
  have e: "emin dt \<le> 1 - emin dt" using emin_le [of dt] by simp
  have s1: "nat (precision dt - 1) = Suc (nat (precision dt - 2))"
    and s2: "nat (precision dt) = Suc (Suc (nat (precision dt - 2)))"
    using precision_ge [of dt] by simp_all
  have m1: "(2::int) ^ nat (precision dt - 1) \<le> 3 * 2 ^ nat (precision dt - 2)"
    by (simp add: s1)
  have m2: "(3::int) * 2 ^ nat (precision dt - 2) < 2 ^ nat (precision dt)"
    by (simp add: s2)
  have "(2::real) powi ((precision dt - 2) + (1 - emin dt - precision dt + 1))
      = 2 ^ nat (precision dt - 2) * 2 powi (1 - emin dt - precision dt + 1)"
    by (rule powi_split [OF p])
  moreover have "(precision dt - 2) + (1 - emin dt - precision dt + 1) = - emin dt" by simp
  ultimately have "(2::real) powi (- emin dt)
      = 2 ^ nat (precision dt - 2) * 2 powi (1 - emin dt - precision dt + 1)"
    by (simp only:)
  then have eq: "of_int (3 * 2 ^ nat (precision dt - 2)) * 2 powi (1 - emin dt - precision dt + 1)
      = 3 * (2::real) powi (- emin dt)"
    by simp
  from fl_fix_normal [OF e m1 m2] show ?thesis by (simp only: eq)
qed

lemma no_overflow:
  assumes "\<bar>a\<bar> \<le> 2 powi (- emin dt)" "\<bar>b\<bar> \<le> 2 powi (- emin dt)" "b \<le> a"
  shows "fl dt (a - b) < overflow_threshold dt"
    and "fl dt (fl dt (a - b) + fl dt (fl Float64 (1 / 10 ^ 8))) < overflow_threshold dt"
proof -
  define B :: real where "B = 2 powi (- emin dt)"
  have Bpos: "0 < B" by (simp add: B_def)
  have "(2::real) powi 126 \<le> 2 powi (- emin dt)"
    using emin_le [of dt] by (intro power_int_increasing) simp_all
  then have Bbig: "1 \<le> B" unfolding B_def by (simp add: order_trans [rotated])
  have two: "2 powi (1 - emin dt) = 2 * B"
    using powi_split [of 1 "- emin dt"] by (simp add: B_def)
  have four: "overflow_threshold dt = 4 * B"
    using powi_split [of 2 "- emin dt"] by (simp add: B_def overflow_threshold_def)
  have e: "emin dt \<le> 1 - emin dt" using emin_le [of dt] by simp
  from assms have d: "0 \<le> a - b" "a - b \<le> 2 * B" by (simp_all add: B_def abs_le_iff)
  from fl_mono [OF d, of dt] fl_pow2 [OF e] have r: "fl dt (a - b) \<le> 2 * B"
    by (simp add: two)
  then show "fl dt (a - b) < overflow_threshold dt" using Bpos by (simp add: four)
  have rn: "0 \<le> fl dt (a - b)" using d(1) by (rule fl_nonneg)
  have "fl dt (fl Float64 (1 / 10 ^ 8)) \<le> 3 * 2 powi (- 28)" by (rule eps_upper)
  also have "\<dots> \<le> (1::real)" by simp
  finally have "fl dt (a - b) + fl dt (fl Float64 (1 / 10 ^ 8)) \<le> 3 * B" using r Bbig by linarith
  moreover have "0 \<le> fl dt (a - b) + fl dt (fl Float64 (1 / 10 ^ 8))" using rn eps_pos [of dt] by linarith
  ultimately have "fl dt (fl dt (a - b) + fl dt (fl Float64 (1 / 10 ^ 8))) \<le> 3 * B"
    using fl_mono [of "fl dt (a - b) + fl dt (fl Float64 (1 / 10 ^ 8))" "3 * B" dt] fl_three_halves [of dt]
    by (simp add: B_def)
  then show "fl dt (fl dt (a - b) + fl dt (fl Float64 (1 / 10 ^ 8))) < overflow_threshold dt"
    using Bpos by (simp add: four)
qed

lemma normalized_max:
  assumes "fl dt a = a" "fl dt b = b" "b < a"
  shows "0 < fl dt (fl dt (a - b) / fl dt (fl dt (a - b) + fl dt (fl Float64 (1 / 10 ^ 8))))"
    and "fl dt (fl dt (a - b) / fl dt (fl dt (a - b) + fl dt (fl Float64 (1 / 10 ^ 8)))) = 1
         \<longleftrightarrow> fl dt (fl dt (a - b) + fl dt (fl Float64 (1 / 10 ^ 8))) = fl dt (a - b)"
proof -
  define r where "r = fl dt (a - b)"
  define dn where "dn = fl dt (r + fl dt (fl Float64 (1 / 10 ^ 8)))"
  from fl_difference_pos [OF assms] have rpos: "0 < r" by (simp add: r_def)
  from assms(3) have "0 < a - b" by simp
  from fl_grid [OF this, of dt] obtain n where grid: "r = of_int n * ulp dt r"
    unfolding r_def ..
  have le: "r \<le> r + fl dt (fl Float64 (1 / 10 ^ 8))" using eps_pos [of dt] by simp
  from fl_mono [of r "r + fl dt (fl Float64 (1 / 10 ^ 8))" dt] rpos le fl_fix [OF grid]
  have dge: "r \<le> dn" by (simp add: dn_def)
  with rpos have dpos: "0 < dn" by linarith
  have iff: "fl dt (r / dn) = 1 \<longleftrightarrow> dn = r"
  proof
    assume "fl dt (r / dn) = 1"
    show "dn = r"
    proof (rule ccontr)
      assume "dn \<noteq> r"
      from fl_quotient_below_one [OF rpos grid le] this have "fl dt (r / dn) < 1"
        by (simp add: dn_def)
      with \<open>fl dt (r / dn) = 1\<close> show False by simp
    qed
  next
    assume "dn = r"
    with rpos show "fl dt (r / dn) = 1" by (simp add: fl_one)
  qed
  have fr: "fl dt r = r" using fl_fix [OF grid] .
  have qpos: "0 < qmin dt" by (simp add: qmin_def)
  have qr: "qmin dt \<le> r"
  proof -
    from float_multiple [OF fr] obtain k where k: "r = of_int k * qmin dt" ..
    from rpos k have "0 < real_of_int k * qmin dt" by simp
    then have "0 < real_of_int k" using qpos by (simp add: zero_less_mult_iff)
    then have "1 \<le> k" by simp
    then have "real_of_int 1 \<le> of_int k" by (simp only: of_int_le_iff)
    then have "qmin dt \<le> of_int k * qmin dt" using qpos by simp
    then show ?thesis by (simp only: k [symmetric])
  qed
  have q4: "qmin dt \<le> 1 / 4"
  proof -
    have "emin dt - precision dt + 1 \<le> - 2" using emin_le [of dt] precision_ge [of dt] by simp
    then have "(2::real) powi (emin dt - precision dt + 1) \<le> 2 powi (- 2)"
      by (rule power_int_increasing) simp
    then show ?thesis by (simp add: qmin_def)
  qed
  have quot: "qmin dt \<le> r / dn"
  proof (cases "3 * 2 powi (- 28) \<le> r")
    case True
    have e28: "emin dt \<le> - 28" using emin_le [of dt] by simp
    have "(2::real) powi (emin dt) \<le> 2 powi (- 28)"
      using e28 by (rule power_int_increasing) simp
    also have "\<dots> \<le> 3 * 2 powi (- 28)" by simp
    finally have nrm: "2 powi (emin dt) \<le> r" using True by linarith
    from ge_binade [OF nrm] have lo: "2 powi (exponent dt r) \<le> r" .
    have y2: "r + fl dt (fl Float64 (1 / 10 ^ 8)) \<le> 2 * r" using eps_upper [of dt] True by linarith
    have "2 * r < 2 * 2 powi (exponent dt r + 1)" using lt_next_binade [OF rpos, of dt] by simp
    also have "2 * (2::real) powi (exponent dt r + 1) = 2 powi (exponent dt r + 1 + 1)"
      using powi_split [of 1 "exponent dt r + 1"] by (simp add: add.commute)
    finally have "2 * r < 2 powi (exponent dt r + 1 + 1)" .
    moreover have "0 < 2 * r" using rpos by simp
    moreover have "emin dt \<le> exponent dt r + 1" using exponent_ge_emin [of dt r] by simp
    ultimately have "exponent dt (2 * r) \<le> exponent dt r + 1" by (intro exponent_le)
    then have "(2::real) powi (exponent dt (2 * r) + 1) \<le> 2 powi (exponent dt r + 1 + 1)"
      by (intro power_int_increasing) simp_all
    also have "(2::real) powi (exponent dt r + 1 + 1) = 4 * 2 powi (exponent dt r)"
      using powi_split [of 2 "exponent dt r"] by (simp add: add.commute)
    finally have "2 powi (exponent dt (2 * r) + 1) \<le> 4 * r" using lo by linarith
    with fl_upper [OF \<open>0 < 2 * r\<close>, of dt] have "fl dt (2 * r) \<le> 4 * r" by linarith
    moreover have "dn \<le> fl dt (2 * r)"
      unfolding dn_def using y2 rpos eps_pos [of dt] by (intro fl_mono) linarith+
    ultimately have "dn \<le> 4 * r" by linarith
    then have "1 / 4 \<le> r / dn" using dpos by (simp add: field_simps)
    with q4 show ?thesis by linarith
  next
    case False
    then have "r + fl dt (fl Float64 (1 / 10 ^ 8)) \<le> 6 * 2 powi (- 28)" using eps_upper [of dt] by linarith
    also have "\<dots> \<le> (1::real)" by simp
    finally have "r + fl dt (fl Float64 (1 / 10 ^ 8)) \<le> 1" .
    then have "dn \<le> fl dt 1"
      unfolding dn_def using rpos eps_pos [of dt] by (intro fl_mono) linarith+
    then have "dn \<le> 1" by (simp add: fl_one)
    then have "r \<le> r / dn" using rpos dpos by (simp add: field_simps)
    with qr show ?thesis by linarith
  qed
  have pos: "0 < fl dt (r / dn)"
  proof -
    from fl_mono [OF _ quot, of dt] qpos have "qmin dt \<le> fl dt (r / dn)" by (simp add: fl_qmin)
    with qpos show ?thesis by linarith
  qed
  from pos iff show "0 < fl dt (fl dt (a - b) / fl dt (fl dt (a - b) + fl dt (fl Float64 (1 / 10 ^ 8))))"
    and "fl dt (fl dt (a - b) / fl dt (fl dt (a - b) + fl dt (fl Float64 (1 / 10 ^ 8)))) = 1
         \<longleftrightarrow> fl dt (fl dt (a - b) + fl dt (fl Float64 (1 / 10 ^ 8))) = fl dt (a - b)"
    by (simp_all add: r_def dn_def)
qed

lemma fl64_above_one: "fl Float64 (1 + 2 powi (- 27)) = 1 + 2 powi (- 27)"
proof -
  have "fl Float64 (of_int (2 ^ 52 + 2 ^ 25) * 2 powi (0 - precision Float64 + 1))
      = of_int (2 ^ 52 + 2 ^ 25) * 2 powi (0 - precision Float64 + 1)"
    by (rule fl_fix_normal) simp_all
  moreover have "real_of_int (2 ^ 52 + 2 ^ 25) * 2 powi (0 - precision Float64 + 1)
      = 1 + 2 powi (- 27)"
    by simp
  ultimately show ?thesis by (simp only:)
qed

text \<open>
  Claim C3 says that the position of the maximum maps to exactly 1 for every volume
  whose maximum exceeds its minimum. On the float64 volume with the two values 0 and 1
  the denominator is 1 + 1e-8 rounded, which is above 1, and the maximum maps to a
  value strictly below 1.
\<close>

theorem normalize_counterexample:
  "fl Float64 0 = 0 \<and> fl Float64 1 = 1 \<and>
   fst (normalize_image Float64 [[[0, 1]]]) ! 0 ! 0 ! 1 < 1"
proof -
  have one: "fl Float64 1 = 1" by (rule fl_one)
  from fl_grid [of 1 Float64] one obtain n where grid: "(1::real) = of_int n * ulp Float64 1"
    by auto
  have le: "(1::real) \<le> 1 + fl Float64 (fl Float64 (1 / 10 ^ 8))" using eps_pos [of Float64] by simp
  have "1 + 2 powi (- 27) \<le> 1 + fl Float64 (fl Float64 (1 / 10 ^ 8))" using eps_lower [of Float64] by simp
  from fl_mono [OF _ this, of Float64] fl64_above_one
  have "1 + 2 powi (- 27) \<le> fl Float64 (1 + fl Float64 (fl Float64 (1 / 10 ^ 8)))" by simp
  moreover have "(0::real) < 2 powi (- 27)" by simp
  ultimately have ne: "fl Float64 (1 + fl Float64 (fl Float64 (1 / 10 ^ 8))) \<noteq> 1" by linarith
  from fl_quotient_below_one [OF _ grid le ne]
  have "fl Float64 (1 / fl Float64 (1 + fl Float64 (fl Float64 (1 / 10 ^ 8)))) < 1" by simp
  then have "fst (normalize_image Float64 [[[0, 1]]]) ! 0 ! 0 ! 1 < 1"
    by (simp add: normalize_image_def Let_def one)
  with one show ?thesis by (simp add: fl_zero)
qed

text \<open>
  Claim C3, amended. For every float32 or float64 volume whose maximum is strictly
  greater than its minimum (its values of magnitude at most 2^126 or 2^1022, so that
  nothing overflows), normalization logs nothing and maps the value x at every position
  to the rounded quotient of the rounded x - min by the rounded (max - min) + 1e-8;
  every output lies in [0, 1]. The position of the minimum maps to exactly 0. The
  position of the maximum maps to a value in (0, 1], which is exactly 1 if and only if
  the rounded denominator equals the rounded max - min, that is, the 1e-8 is absorbed
  by the rounding. It is absorbed whenever max - min is at least 2^(p - 26): 0.25 for
  float32, 2^27 for float64.
\<close>

theorem normalize_extremes:
  assumes "d < length vol" "h < length (vol ! d)" "w < length (vol ! d ! h)"
    and "\<forall>x \<in> set (concat (concat vol)). fl dt x = x"
    and "\<forall>x \<in> set (concat (concat vol)). \<bar>x\<bar> \<le> 2 powi (- emin dt)"
    and "Min (set (concat (concat vol))) < Max (set (concat (concat vol)))"
  shows "let mn = Min (set (concat (concat vol)));
             mx = Max (set (concat (concat vol)));
             r = fl dt (mx - mn);
             denom = fl dt (r + fl dt (fl Float64 (1 / 10 ^ 8)));
             x = vol ! d ! h ! w;
             out = fst (normalize_image dt vol) ! d ! h ! w
         in snd (normalize_image dt vol) = [] \<and>
            out = fl dt (fl dt (x - mn) / denom) \<and>
            fl dt (x - mn) < overflow_threshold dt \<and> denom < overflow_threshold dt \<and>
            0 \<le> out \<and> out \<le> 1 \<and>
            (x = mn \<longrightarrow> out = 0) \<and>
            (x = mx \<longrightarrow> 0 < out \<and> (out = 1 \<longleftrightarrow> denom = r) \<and>
               (2 powi (precision dt - 26) \<le> mx - mn \<longrightarrow> out = 1))"
proof -
  define vals where "vals = concat (concat vol)"
  define mn where "mn = Min (set vals)"
  define mx where "mx = Max (set vals)"
  define x where "x = vol ! d ! h ! w"
  define r where "r = fl dt (mx - mn)"
  define denom where "denom = fl dt (r + fl dt (fl Float64 (1 / 10 ^ 8)))"
  define out where "out = fl dt (fl dt (x - mn) / denom)"
  from nth3_in_concat [OF assms(1-3)] have xin: "x \<in> set vals"
    by (simp add: x_def vals_def)
  then have ne: "vals \<noteq> []" by auto
  then have mnin: "mn \<in> set vals" and mxin: "mx \<in> set vals"
    by (simp_all add: mn_def mx_def)
  from xin have lo: "mn \<le> x" and hi: "x \<le> mx" by (simp_all add: mn_def mx_def)
  from assms(6) have lt: "mn < mx" by (simp add: mn_def mx_def vals_def)
  from assms(4) mnin mxin have fmn: "fl dt mn = mn" and fmx: "fl dt mx = mx"
    unfolding vals_def by blast+
  from assms(5) mnin mxin xin
  have bmn: "\<bar>mn\<bar> \<le> 2 powi (- emin dt)" and bmx: "\<bar>mx\<bar> \<le> 2 powi (- emin dt)"
    and bx: "\<bar>x\<bar> \<le> 2 powi (- emin dt)"
    unfolding vals_def by blast+
  have res: "normalize_image dt vol
      = (map (map (map (\<lambda>x. fl dt (fl dt (x - mn) / denom)))) vol, [])"
    using np_min_Min [OF ne] np_max_Max [OF ne]
    by (simp add: normalize_image_def vals_def [symmetric] mn_def mx_def denom_def r_def Let_def)
  from assms(1-3) have o: "fst (normalize_image dt vol) ! d ! h ! w = out"
    by (simp add: res x_def out_def)
  have lg: "snd (normalize_image dt vol) = []" by (simp add: res)
  from normalized_max [OF fmx fmn lt]
  have mpos: "0 < fl dt (r / denom)" and miff: "fl dt (r / denom) = 1 \<longleftrightarrow> denom = r"
    by (simp_all add: r_def denom_def)
  from fl_difference_pos [OF fmx fmn lt] have rpos: "0 < r" by (simp add: r_def)
  have "0 \<le> mx - mn" using lt by simp
  from fl_idem [OF this] have fr: "fl dt r = r" by (simp add: r_def)
  have "r \<le> r + fl dt (fl Float64 (1 / 10 ^ 8))" using eps_pos [of dt] by simp
  from fl_mono [OF _ this, of dt] rpos fr have dge: "r \<le> denom" by (simp add: denom_def)
  with rpos have dpos: "0 < denom" by linarith
  have n0: "0 \<le> fl dt (x - mn)" using lo by (intro fl_nonneg) simp
  have nr: "fl dt (x - mn) \<le> r" unfolding r_def using lo hi by (intro fl_mono) simp_all
  have q0: "0 \<le> fl dt (x - mn) / denom" using n0 dpos by simp
  have q1: "fl dt (x - mn) / denom \<le> 1" using nr dge dpos by (simp add: field_simps)
  have out0: "0 \<le> out" unfolding out_def using q0 by (rule fl_nonneg)
  have out1: "out \<le> 1" using fl_mono [OF q0 q1, of dt] by (simp add: out_def fl_one)
  have ov1: "fl dt (x - mn) < overflow_threshold dt" using no_overflow(1) [OF bx bmn lo] .
  have ov2: "denom < overflow_threshold dt"
    using no_overflow(2) [OF bmx bmn] lt by (simp add: denom_def r_def)
  have atmin: "out = 0" if "x = mn" using that by (simp add: out_def fl_zero)
  have atmax: "0 < out \<and> (out = 1 \<longleftrightarrow> denom = r) \<and>
      (2 powi (precision dt - 26) \<le> mx - mn \<longrightarrow> out = 1)" if "x = mx"
  proof -
    from that have oe: "out = fl dt (r / denom)" by (simp add: out_def r_def)
    have b1: "0 < out" using mpos by (simp only: oe)
    have b2: "out = 1 \<longleftrightarrow> denom = r" using miff by (simp only: oe)
    have b3: "2 powi (precision dt - 26) \<le> mx - mn \<longrightarrow> out = 1"
    proof
      assume big: "2 powi (precision dt - 26) \<le> mx - mn"
      from absorb_threshold [OF big] have "denom = r" by (simp add: denom_def r_def)
      with b2 show "out = 1" by blast
    qed
    from b1 b2 b3 show ?thesis by blast
  qed
  define res_out where "res_out = fst (normalize_image dt vol) ! d ! h ! w"
  have ro: "res_out = out" by (simp add: res_out_def o)
  have concl: "snd (normalize_image dt vol) = [] \<and>
      res_out = fl dt (fl dt (x - mn) / denom) \<and>
      fl dt (x - mn) < overflow_threshold dt \<and> denom < overflow_threshold dt \<and>
      0 \<le> res_out \<and> res_out \<le> 1 \<and>
      (x = mn \<longrightarrow> res_out = 0) \<and>
      (x = mx \<longrightarrow> 0 < res_out \<and> (res_out = 1 \<longleftrightarrow> denom = r) \<and>
         (2 powi (precision dt - 26) \<le> mx - mn \<longrightarrow> res_out = 1))"
    unfolding ro using lg out0 out1 ov1 ov2 atmin atmax by (simp add: out_def)
  show ?thesis
    unfolding Let_def
    using concl
    unfolding res_out_def denom_def r_def x_def mn_def mx_def vals_def .
qed

theorem normalize_extremes_witness:
  "fl Float32 0 = 0 \<and> fl Float32 1 = 1 \<and>
   \<bar>1::real\<bar> \<le> 2 powi (- emin Float32) \<and>
   Min (set (concat (concat [[[0::real, 1]]]))) < Max (set (concat (concat [[[0::real, 1]]]))) \<and>
   fst (normalize_image Float32 [[[0, 1]]]) ! 0 ! 0 ! 0 = 0 \<and>
   fst (normalize_image Float32 [[[0, 1]]]) ! 0 ! 0 ! 1 = 1"
proof -
  let ?v = "[[[0::real, 1]]]"
  have h1: "(0::nat) < length ?v" by simp
  have h2: "(0::nat) < length (?v ! 0)" by simp
  have h3: "(0::nat) < length (?v ! 0 ! 0)" by simp
  have h3': "(1::nat) < length (?v ! 0 ! 0)" by simp
  have z: "fl Float32 0 = 0" by (rule fl_zero)
  have o: "fl Float32 1 = 1" by (rule fl_one)
  have h4: "\<forall>x \<in> set (concat (concat ?v)). fl Float32 x = x" by (simp add: z o)
  have b: "\<bar>1::real\<bar> \<le> 2 powi (- emin Float32)" by simp
  have h5: "\<forall>x \<in> set (concat (concat ?v)). \<bar>x\<bar> \<le> 2 powi (- emin Float32)" by simp
  have h6: "Min (set (concat (concat ?v))) < Max (set (concat (concat ?v)))" by simp
  from normalize_extremes [OF h1 h2 h3 h4 h5 h6]
  have "fst (normalize_image Float32 ?v) ! 0 ! 0 ! 0 = 0" by (simp add: Let_def)
  moreover from normalize_extremes [OF h1 h2 h3' h4 h5 h6]
  have "fst (normalize_image Float32 ?v) ! 0 ! 0 ! 1 = 1" by (simp add: Let_def)
  ultimately show ?thesis using z o b h6 by blast
qed

subsection \<open>SUV conversion\<close>

text \<open>
  Claim C5. For a slice whose modality is not CT, with a pixel of value 100,
  PatientWeight 70 and a RadionuclideTotalDose of 3.7e8 in the first item of the dose
  sequence, \<open>convert\<close> takes the SUV conversion, which logs nothing; the dose is
  3.7e8 / 1e6 = 370, and the pixel becomes (100 * 70) / 370, which is 18.92 to two
  decimals.
\<close>

theorem suv_scenario:
  assumes "i < length img" "j < length (img ! i)" "img ! i ! j = 100"
    and "Modality md \<noteq> ''CT''"
    and "PatientWeight md = Val 70"
    and "RadiopharmaceuticalInformationSequence md = Val (rph # rest)"
    and "RadionuclideTotalDose rph = Val 370000000"
  shows "convert hu False [(img, md)] = Inr ([fst (convert_to_suv img md)], []) \<and>
         snd (convert_to_suv img md) = [] \<and>
         (370000000 :: real) / 10 ^ 6 = 370 \<and>
         fst (convert_to_suv img md) ! i ! j = (100 * 70) / 370 \<and>
         \<bar>fst (convert_to_suv img md) ! i ! j - 1892 / 100\<bar> < 5 / 1000"
  using assms by (simp add: convert_to_suv_def astype_float32_def Let_def)

theorem suv_scenario_witness:
  "(0::nat) < length [[100::int]] \<and> [[100::int]] ! 0 ! 0 = 100 \<and>
   Modality pet_dataset \<noteq> ''CT'' \<and>
   PatientWeight pet_dataset = Val 70 \<and>
   RadiopharmaceuticalInformationSequence pet_dataset
     = Val [\<lparr>RadionuclideTotalDose = Val 370000000\<rparr>] \<and>
   convert_to_suv [[100]] pet_dataset = ([[700 / 37]], [])"
proof -
  have h1: "(0::nat) < length [[100::int]]" by simp
  have h2: "(0::nat) < length ([[100::int]] ! 0)" by simp
  have h3: "[[100::int]] ! 0 ! 0 = 100" by simp
  have h0: "Modality pet_dataset \<noteq> ''CT''" by (simp add: pet_dataset_def bare_dataset_def)
  have h4: "PatientWeight pet_dataset = Val 70" by (simp add: pet_dataset_def)
  have h5: "RadiopharmaceuticalInformationSequence pet_dataset
     = Val (\<lparr>RadionuclideTotalDose = Val 370000000\<rparr> # [])" by (simp add: pet_dataset_def)
  have h6: "RadionuclideTotalDose \<lparr>RadionuclideTotalDose = Val 370000000\<rparr> = Val 370000000" by simp
  have sh: "convert_to_suv [[100]] pet_dataset
      = ([[fst (convert_to_suv [[100]] pet_dataset) ! 0 ! 0]], snd (convert_to_suv [[100]] pet_dataset))"
    by (simp add: convert_to_suv_def astype_float32_def pet_dataset_def Let_def)
  from suv_scenario [OF h1 h2 h3 h0 h4 h5 h6,
      where hu = "\<lambda>img md. Inr (Float32, astype_float32 img)"]
  have "snd (convert_to_suv [[100]] pet_dataset) = []"
    and "fst (convert_to_suv [[100]] pet_dataset) ! 0 ! 0 = 700 / 37" by simp_all
  with sh have "convert_to_suv [[100]] pet_dataset = ([[700 / 37]], [])" by simp
  with h0 h1 h3 h4 h5 show ?thesis by simp
qed

text \<open>
  Claim C6. When PatientWeight is missing or None, or the dose sequence is missing,
  None or empty, or the dose of its first item is missing or None, or the computed dose
  is exactly zero, the conversion does not raise: it returns the pixel grid with its
  values unchanged, as floats, and logs exactly one record, a warning.
\<close>

theorem suv_skipped:
  assumes "PatientWeight md = Missing \<or> PatientWeight md = PyNone \<or>
           RadiopharmaceuticalInformationSequence md = Missing \<or>
           RadiopharmaceuticalInformationSequence md = PyNone \<or>
           RadiopharmaceuticalInformationSequence md = Val [] \<or>
           (\<exists>rph rest. RadiopharmaceuticalInformationSequence md = Val (rph # rest) \<and>
              (RadionuclideTotalDose rph = Missing \<or> RadionuclideTotalDose rph = PyNone \<or>
               (\<exists>total_dose. RadionuclideTotalDose rph = Val total_dose \<and> total_dose / 10 ^ 6 = 0)))"
  shows "\<exists>msg. convert_to_suv img md = (map (map real_of_int) img, [(WARNING, msg)])"
  using assms
  by (auto simp: convert_to_suv_def astype_float32_def Let_def split: attr.splits list.splits)

theorem suv_skipped_witness:
  "PatientWeight bare_dataset = Missing \<and>
   convert_to_suv [[100]] bare_dataset
     = ([[100]], [(WARNING, ''Skipping SUV conversion: PatientWeight is missing or None'')])"
proof -
  have h: "PatientWeight bare_dataset = Missing" by (simp add: bare_dataset_def)
  then have "PatientWeight bare_dataset = Missing \<or> PatientWeight bare_dataset = PyNone \<or>
           RadiopharmaceuticalInformationSequence bare_dataset = Missing \<or>
           RadiopharmaceuticalInformationSequence bare_dataset = PyNone \<or>
           RadiopharmaceuticalInformationSequence bare_dataset = Val [] \<or>
           (\<exists>rph rest. RadiopharmaceuticalInformationSequence bare_dataset = Val (rph # rest) \<and>
              (RadionuclideTotalDose rph = Missing \<or> RadionuclideTotalDose rph = PyNone \<or>
               (\<exists>total_dose. RadionuclideTotalDose rph = Val total_dose \<and> total_dose / 10 ^ 6 = 0)))"
    by simp
  from suv_skipped [OF this, of "[[100]]"]
  obtain msg where "convert_to_suv [[100]] bare_dataset = ([[100]], [(WARNING, msg)])" by auto
  moreover have "snd (convert_to_suv [[100]] bare_dataset)
     = [(WARNING, ''Skipping SUV conversion: PatientWeight is missing or None'')]"
    by (simp add: convert_to_suv_def bare_dataset_def Let_def)
  ultimately show ?thesis using h by simp
qed

section \<open>Properties of the slice loader\<close>

subsection \<open>The z-position\<close>

lemmas z_eval = get_z_position_def try_image_position_def try_slice_location_def
  try_instance_number_def

text \<open>
  Claim C7. The z-position of a slice is resolved in strict priority order: the third
  component of ImagePositionPatient when the element is there with at least three
  components; otherwise SliceLocation when it is there and not None; otherwise
  InstanceNumber when it is there with a value; otherwise 0.0, with exactly one warning
  record. No other case logs anything.
\<close>

theorem z_position_priority:
  "get_z_position ds =
     (case ImagePositionPatient ds of
        Val (x # y # z # rest) \<Rightarrow> (z, [])
      | _ \<Rightarrow>
        (case SliceLocation ds of
           Val s \<Rightarrow> (s, [])
         | _ \<Rightarrow>
           (case InstanceNumber ds of
              Val n \<Rightarrow> (real_of_int n, [])
            | _ \<Rightarrow> (0, [(WARNING, ''Could not determine z-position, using 0 as fallback'')]))))"
  by (simp add: get_z_position_def try_image_position_def try_slice_location_def
      try_instance_number_def split: attr.splits list.splits)

theorem z_position_priority_witness:
  "get_z_position bare_dataset
     = (0, [(WARNING, ''Could not determine z-position, using 0 as fallback'')]) \<and>
   get_z_position (bare_dataset\<lparr>InstanceNumber := Val 7\<rparr>) = (7, []) \<and>
   get_z_position (bare_dataset\<lparr>InstanceNumber := Val 7, SliceLocation := Val 3\<rparr>) = (3, []) \<and>
   get_z_position (bare_dataset\<lparr>InstanceNumber := Val 7, SliceLocation := Val 3,
      ImagePositionPatient := Val [1, 2, 5]\<rparr>) = (5, []) \<and>
   get_z_position (bare_dataset\<lparr>InstanceNumber := Val 7, SliceLocation := Val 3,
      ImagePositionPatient := Val [1, 2]\<rparr>) = (3, []) \<and>
   get_z_position (bare_dataset\<lparr>InstanceNumber := PyNone\<rparr>)
     = (0, [(WARNING, ''Could not determine z-position, using 0 as fallback'')])"
  by (simp add: z_position_priority bare_dataset_def)

subsection \<open>The ordering of the slices\<close>

lemma load_files_slices:
  "fst (load_files files) = map (\<lambda>s. (z_of s, fst s, snd s)) (decoded_slices files)"
proof (induction files)
  case Nil
  show ?case by (simp add: decoded_slices_def List.map_filter_simps)
next
  case (Cons f files)
  then show ?case
    by (cases f)
      (auto simp: decoded_slices_def List.map_filter_simps z_of_def
        split: prod.splits option.splits)
qed

lemma insort_key_map_inj:
  "insort_key f (g x) (map g ys) = map g (insort_key (\<lambda>y. f (g y)) x ys)"
  by (induction ys) simp_all

lemma sort_key_map_inj:
  "sort_key f (map g xs) = map g (sort_key (\<lambda>y. f (g y)) xs)"
  by (induction xs) (simp_all add: insort_key_map_inj)

lemma to_2d_array_sort:
  "fst (to_2d_array files) = sort_key z_of (decoded_slices files)"
proof -
  obtain slices lg where lf: "load_files files = (slices, lg)" by (cases "load_files files")
  with load_files_slices [of files]
  have sl: "slices = map (\<lambda>s. (z_of s, fst s, snd s)) (decoded_slices files)" by simp
  have "map (\<lambda>(z, px, metadata). (px, metadata)) (sort_key fst slices)
      = map (\<lambda>(z, px, metadata). (px, metadata))
          (map (\<lambda>s. (z_of s, fst s, snd s)) (sort_key z_of (decoded_slices files)))"
    unfolding sl by (simp add: sort_key_map_inj)
  also have "\<dots> = sort_key z_of (decoded_slices files)"
    by (simp add: comp_def)
  finally show ?thesis using lf by (simp add: to_2d_array_def)
qed

lemma slice_at_simps:
  "pixel_array (slice_at z v) = Some [[v]]"
  "z_of (px, slice_at z v) = z"
  by (simp_all add: slice_at_def bare_dataset_def z_of_def z_eval)

text \<open>
  Claim C8. The sequence the loader returns is sorted non-decreasing by the resolved
  z-position; for every z-position, the slices at that position come in the order of
  their files (the sort is stable, and no decodable slice is lost or added); a study
  whose decodable slices are already sorted comes back in the same order; and sorting
  the loader's output again changes nothing.
\<close>

theorem loader_sorted_stable:
  "sorted (map z_of (fst (to_2d_array files))) \<and>
   (\<forall>k. filter (\<lambda>s. z_of s = k) (fst (to_2d_array files))
        = filter (\<lambda>s. z_of s = k) (decoded_slices files)) \<and>
   length (fst (to_2d_array files)) = length (decoded_slices files) \<and>
   (sorted (map z_of (decoded_slices files))
      \<longrightarrow> fst (to_2d_array files) = decoded_slices files) \<and>
   sort_key z_of (fst (to_2d_array files)) = fst (to_2d_array files)"
  by (simp add: to_2d_array_sort sort_key_stable sort_key_id_if_sorted)

theorem loader_sorted_stable_witness:
  "sorted (map z_of (decoded_slices [Some (slice_at 1 10), None, Some (slice_at 1 20), Some (slice_at 2 30)])) \<and>
   fst (to_2d_array [Some (slice_at 1 10), None, Some (slice_at 1 20), Some (slice_at 2 30)])
     = [([[10]], slice_at 1 10), ([[20]], slice_at 1 20), ([[30]], slice_at 2 30)] \<and>
   fst (to_2d_array [Some (slice_at 2 30), Some (slice_at 1 10), None, Some (slice_at 1 20)])
     = [([[10]], slice_at 1 10), ([[20]], slice_at 1 20), ([[30]], slice_at 2 30)]"
proof -
  let ?fs = "[Some (slice_at 1 10), None, Some (slice_at 1 20), Some (slice_at 2 30)]"
  have d: "decoded_slices ?fs = [([[10]], slice_at 1 10), ([[20]], slice_at 1 20), ([[30]], slice_at 2 30)]"
    by (simp add: decoded_slices_def List.map_filter_simps slice_at_simps)
  have h: "sorted (map z_of (decoded_slices ?fs))" by (simp add: d slice_at_simps)
  from loader_sorted_stable [of ?fs] h have "fst (to_2d_array ?fs) = decoded_slices ?fs" by blast
  moreover have "fst (to_2d_array [Some (slice_at 2 30), Some (slice_at 1 10), None, Some (slice_at 1 20)])
     = [([[10]], slice_at 1 10), ([[20]], slice_at 1 20), ([[30]], slice_at 2 30)]"
    by (simp add: to_2d_array_sort decoded_slices_def List.map_filter_simps slice_at_simps)
  ultimately show ?thesis using h d by simp
qed

subsection \<open>The empty study\<close>

lemma decoded_slices_none:
  "list_all decode_fails files \<Longrightarrow> decoded_slices files = []"
  by (induction files)
    (auto simp: decoded_slices_def List.map_filter_simps decode_fails_def split: option.splits)

text \<open>
  Claim C9. Stacking the empty slice list raises ValueError. So for a study that has
  files of which none decodes, the loader returns the empty sequence without an error,
  and the pipeline ends with the ValueError of the stacking step: no volume is
  normalized, trimmed or saved.
\<close>

theorem empty_study_aborts_at_stacking:
  assumes "files \<noteq> []" and "list_all decode_fails files"
  shows "to_3d_array resize [] target_size = Inl (ValueError ''No slices provided'') \<and>
         fst (to_2d_array files) = [] \<and>
         preprocess_pet_patient_data resize hu dt files threshold max_mode
           = Inl (ValueError ''No slices provided'')"
proof -
  from decoded_slices_none [OF assms(2)] have e: "fst (to_2d_array files) = []"
    by (simp add: to_2d_array_sort)
  have s: "to_3d_array resize [] n = Inl (ValueError ''No slices provided'')" for n
    by (simp add: to_3d_array_def)
  from assms(1) e s show ?thesis
    by (simp add: preprocess_pet_patient_data_def)
qed

theorem empty_study_aborts_at_stacking_witness:
  "undecodable_study \<noteq> [] \<and> list_all decode_fails undecodable_study \<and>
   fst (to_2d_array undecodable_study) = [] \<and>
   preprocess_pet_patient_data (\<lambda>img n. img) (\<lambda>img md. Inr (Float32, astype_float32 img))
       Float32 undecodable_study (1/2) False
     = Inl (ValueError ''No slices provided'')"
proof -
  have h1: "undecodable_study \<noteq> []" by (simp add: undecodable_study_def)
  have h2: "list_all decode_fails undecodable_study"
    by (simp add: undecodable_study_def decode_fails_def)
  from empty_study_aborts_at_stacking [OF h1 h2, where resize = "\<lambda>img n. img"
      and hu = "\<lambda>img md. Inr (Float32, astype_float32 img)" and dt = Float32
      and threshold = "1/2" and max_mode = False] h1 h2
  show ?thesis by simp
qed

end
